theory Spec2Isabelle
  imports Complex_Main "HOL-Library.Sublist"
begin

section \<open>Data model (types/plant-types.ts)\<close>

text \<open>
  JavaScript numbers are modelled as real numbers: \<open>Math.sqrt\<close> is \<open>sqrt\<close>,
  \<open>Math.pow(a, 2)\<close> is \<open>a\<^sup>2\<close>, \<open>Math.log1p(a)\<close> is \<open>ln (1 + a)\<close>, \<open>Math.tanh\<close>,
  \<open>Math.sign\<close>, \<open>Math.cos\<close> and \<open>Math.sin\<close> are \<open>tanh\<close>, \<open>sgn\<close>, \<open>cos\<close> and \<open>sin\<close>.
  Rounding is not modelled. Node ids and ages only ever hold array lengths and counters
  started at zero, so they are natural numbers. The fields \<open>x\<close>, \<open>y\<close>, \<open>id\<close> and
  \<open>type\<close> are named \<open>vx\<close>, \<open>vy\<close>, \<open>node_id\<close> and \<open>r_type\<close>; the position of a
  resource is \<open>r_position\<close>.
\<close>

record Vector2D =
  vx :: real
  vy :: real

record PlantNode =
  node_id :: nat
  position :: Vector2D
  energy :: real
  coherence :: real
  distortion :: real
  temporalComplexity :: real
  spatialComplexity :: real
  parent :: "nat option"
  age :: nat

datatype ResourceType = light | support | obstacle

record ResourcePoint =
  r_position :: Vector2D
  intensity :: real
  r_type :: ResourceType

section \<open>Constants (hooks/usePlantCSpace.ts)\<close>

definition ALPHA :: real where "ALPHA = 0.05"
definition BETA :: real where "BETA = 0.1"
definition EPSILON :: real where "EPSILON = 1 / 10 ^ 9"
definition D_CRITICAL :: real where "D_CRITICAL = 2.5"
definition GROWTH_RATE :: real where "GROWTH_RATE = 5"
definition MAX_ENERGY_DISTANCE :: real where "MAX_ENERGY_DISTANCE = 200"
definition COMPLEXITY_GRADIENT_SCALE :: real where "COMPLEXITY_GRADIENT_SCALE = 0.01"

section \<open>Environment fields\<close>

text \<open>The distance expression the source writes out at every use:
  \<open>Math.sqrt(Math.pow(a.x - b.x, 2) + Math.pow(a.y - b.y, 2))\<close>.\<close>

definition distance :: "Vector2D \<Rightarrow> Vector2D \<Rightarrow> real" where
  "distance a b = sqrt ((vx a - vx b)\<^sup>2 + (vy a - vy b)\<^sup>2)"

text \<open>One iteration of the \<open>resources.forEach\<close> of \<open>calculateSpatialComplexity\<close>.\<close>

definition complexity_step :: "Vector2D \<Rightarrow> real \<Rightarrow> ResourcePoint \<Rightarrow> real" where
  "complexity_step pos complexity resource =
     (let dist = distance pos (r_position resource) in
      if dist < 100 then
        (if r_type resource = obstacle then complexity + intensity resource * (1 - dist / 100)
         else if r_type resource = support then
           complexity - intensity resource * (1 - dist / 100) * 0.5
         else complexity)
      else complexity)"

definition calculateSpatialComplexity :: "ResourcePoint list \<Rightarrow> Vector2D \<Rightarrow> real" where
  "calculateSpatialComplexity resources pos =
     max 0.1 (min 1.0 (foldl (complexity_step pos) 0.5 resources))"

text \<open>One iteration of the \<open>resources.forEach\<close> of \<open>calculateEnergy\<close>.\<close>

definition energy_step :: "Vector2D \<Rightarrow> real \<Rightarrow> ResourcePoint \<Rightarrow> real" where
  "energy_step pos e resource =
     (if r_type resource = light then
        (let dist = distance pos (r_position resource) in
         if dist < MAX_ENERGY_DISTANCE then
           e + intensity resource * (1 - dist / MAX_ENERGY_DISTANCE)\<^sup>2
         else e)
      else e)"

definition calculateEnergy :: "ResourcePoint list \<Rightarrow> Vector2D \<Rightarrow> real" where
  "calculateEnergy resources pos = max 0.1 (min 1.0 (foldl (energy_step pos) 0.2 resources))"

definition calculateSpatialGradient :: "ResourcePoint list \<Rightarrow> Vector2D \<Rightarrow> Vector2D" where
  "calculateSpatialGradient resources pos =
     (let delta = 5;
          s = calculateSpatialComplexity resources pos;
          sx = calculateSpatialComplexity resources \<lparr>vx = vx pos + delta, vy = vy pos\<rparr>;
          sy = calculateSpatialComplexity resources \<lparr>vx = vx pos, vy = vy pos + delta\<rparr>
      in \<lparr>vx = (sx - s) / delta, vy = (sy - s) / delta\<rparr>)"

section \<open>The per-tick update (the \<open>setNodes\<close> callback)\<close>

text \<open>
  A quotient whose denominator can be zero. JavaScript returns \<open>NaN\<close> or an infinity
  there; \<open>None\<close> stands for that value, which is not a real number.
\<close>

definition js_div :: "real \<Rightarrow> real \<Rightarrow> real option" where
  "js_div a b = (if b = 0 then None else Some (a / b))"

text \<open>The increments computed for one node from its fields before the update and the
  fields sampled at its position.\<close>

definition gradS_of :: "ResourcePoint list \<Rightarrow> PlantNode \<Rightarrow> real" where
  "gradS_of resources node =
     (let gradient = calculateSpatialGradient resources (position node)
      in sqrt (vx gradient * vx gradient + vy gradient * vy gradient))"

text \<open>
  The quotient \<open>dD_dH\<close>. Its denominator is zero exactly for the coherence \<open>- EPSILON\<close>;
  the quotient is then \<open>NaN\<close> or an infinity, and so is everything computed from it.
\<close>

definition dD_dH_of :: "PlantNode \<Rightarrow> real option" where
  "dD_dH_of node = js_div (distortion node) (coherence node + EPSILON)"

text \<open>
  \<open>dH\<close> as a real number. Where the quotient is not a real number neither is \<open>dH\<close>, and
  no real number is assigned to it: the value is left unspecified there, and every
  statement that depends on the value of \<open>dH\<close> assumes a denominator that is not zero.
\<close>

definition dH_of :: "ResourcePoint list \<Rightarrow> PlantNode \<Rightarrow> real" where
  "dH_of resources node =
     (case dD_dH_of node of
        Some dD_dH \<Rightarrow> - ALPHA * (dD_dH + gradS_of resources node * COMPLEXITY_GRADIENT_SCALE)
      | None \<Rightarrow> undefined)"

definition dD_of :: "ResourcePoint list \<Rightarrow> PlantNode \<Rightarrow> real" where
  "dD_of resources node =
     BETA * ln (1 + \<bar>dH_of resources node\<bar> * calculateEnergy resources (position node))"

definition dT_of :: "ResourcePoint list \<Rightarrow> PlantNode \<Rightarrow> real" where
  "dT_of resources node =
     BETA * tanh (\<bar>dH_of resources node\<bar> * calculateEnergy resources (position node))
       * sgn (coherence node)"

text \<open>The value written to \<open>newNodes[index]\<close> by the base update.\<close>

definition base_update :: "ResourcePoint list \<Rightarrow> PlantNode \<Rightarrow> PlantNode" where
  "base_update resources node =
     node\<lparr>coherence := max 0 (coherence node + dH_of resources node),
          distortion := distortion node + dD_of resources node,
          temporalComplexity := temporalComplexity node + dT_of resources node,
          spatialComplexity := calculateSpatialComplexity resources (position node),
          energy := calculateEnergy resources (position node),
          age := age node + 1\<rparr>"

text \<open>
  The mutable locals of the callback: the copy \<open>newNodes\<close>, the list \<open>nodesToAdd\<close>,
  and the number of calls of \<open>Math.random()\<close> made so far. The random source is a
  sequence \<open>rng\<close>: the call number \<open>k\<close> (from zero) within a tick returns \<open>rng k\<close>.
\<close>

record tick_state =
  newNodes :: "PlantNode list"
  nodesToAdd :: "PlantNode list"
  draws :: nat

definition nearbyNodes :: "PlantNode list \<Rightarrow> Vector2D \<Rightarrow> PlantNode list" where
  "nearbyNodes prevNodes pos = filter (\<lambda>n. distance (position n) pos < 20) prevNodes"

text \<open>The branching block. \<open>node\<close> is the element of \<open>prevNodes\<close>, so its fields are
  those before the update. \<open>newNodes[index]\<close> is in range whenever the block runs.\<close>

definition branch_block ::
  "(nat \<Rightarrow> real) \<Rightarrow> PlantNode list \<Rightarrow> nat \<Rightarrow> PlantNode \<Rightarrow> real \<Rightarrow> real \<Rightarrow> tick_state \<Rightarrow> tick_state"
where
  "branch_block rng prevNodes index node S E st =
     (let pos = position node in
      if distortion node > D_CRITICAL \<and> E > 0.3 \<and> age node > 5 \<and>
         length (nearbyNodes prevNodes pos) < 3
      then
        (let branchDirection = rng (draws st) * 2 * pi;
             branchDistance = GROWTH_RATE * (0.5 + 0.5 * E);
             newNode = \<lparr>node_id = length prevNodes + length (nodesToAdd st),
                        position = \<lparr>vx = vx pos + cos branchDirection * branchDistance,
                                     vy = vy pos + sin branchDirection * branchDistance\<rparr>,
                        energy = E,
                        coherence = 1.0,
                        distortion = 0.0,
                        temporalComplexity = temporalComplexity node,
                        spatialComplexity = S,
                        parent = Some (node_id node),
                        age = 0\<rparr>
         in st\<lparr>newNodes := (newNodes st)[index := (newNodes st ! index)\<lparr>distortion := 0.5\<rparr>],
               nodesToAdd := nodesToAdd st @ [newNode],
               draws := Suc (draws st)\<rparr>)
      else st)"

text \<open>One iteration of the light-bias loop. Once an accumulator is \<open>NaN\<close> every later
  sum is \<open>NaN\<close> too, so \<open>None\<close> is absorbing.\<close>

definition light_bias_step ::
  "Vector2D \<Rightarrow> (real \<times> real) option \<Rightarrow> ResourcePoint \<Rightarrow> (real \<times> real) option"
where
  "light_bias_step pos bias resource =
     (if r_type resource = light then
        (let dx = vx (r_position resource) - vx pos;
             dy = vy (r_position resource) - vy pos;
             dist = sqrt (dx * dx + dy * dy)
         in if dist < MAX_ENERGY_DISTANCE then
              (let weight = intensity resource * (1 - dist / MAX_ENERGY_DISTANCE)
               in case (bias, js_div dx dist, js_div dy dist) of
                    (Some (lightBiasX, lightBiasY), Some qx, Some qy) \<Rightarrow>
                      Some (lightBiasX + qx * weight, lightBiasY + qy * weight)
                  | _ \<Rightarrow> None)
            else bias)
      else bias)"

definition lightBias :: "ResourcePoint list \<Rightarrow> Vector2D \<Rightarrow> (real \<times> real) option" where
  "lightBias resources pos = foldl (light_bias_step pos) (Some (0, 0)) resources"

text \<open>The normalised direction \<open>(normDirX, normDirY)\<close>. When the light bias is \<open>NaN\<close>,
  so are \<open>dirX\<close>, \<open>dirY\<close> and \<open>magnitude\<close>; the test \<open>magnitude > 0\<close> is then false and
  both conditional expressions take their default.\<close>

definition growth_direction ::
  "ResourcePoint list \<Rightarrow> Vector2D \<Rightarrow> real \<Rightarrow> Vector2D \<Rightarrow> real \<times> real"
where
  "growth_direction resources pos S gradient =
     (let moveX = - vx gradient * 10 - 0.2;
          moveY = - vy gradient * 10 - 0.6;
          pureTimeFactor = max 0 (1 - S * 2)
      in case lightBias resources pos of
           None \<Rightarrow> (0, - 1)
         | Some (lightBiasX, lightBiasY) \<Rightarrow>
             (let dirX = moveX + lightBiasX * 2 * pureTimeFactor;
                  dirY = moveY + lightBiasY * 2 * pureTimeFactor;
                  magnitude = sqrt (dirX * dirX + dirY * dirY)
              in (if magnitude > 0 then dirX / magnitude else 0,
                  if magnitude > 0 then dirY / magnitude else - 1)))"

definition activeNodeCount :: "PlantNode list \<Rightarrow> nat" where
  "activeNodeCount prevNodes = length (filter (\<lambda>n. age n < 15) prevNodes)"

text \<open>The growth block. \<open>Math.random()\<close> is the last operand of the \<open>&&\<close> chain, so it is
  called only when the three tests before it hold.\<close>

definition growth_block ::
  "ResourcePoint list \<Rightarrow> (nat \<Rightarrow> real) \<Rightarrow> PlantNode list \<Rightarrow> PlantNode \<Rightarrow> real \<Rightarrow> real \<Rightarrow> real
     \<Rightarrow> tick_state \<Rightarrow> tick_state"
where
  "growth_block resources rng prevNodes node S E dT st =
     (if coherence node > 0.2 \<and> age node < 15 \<and> activeNodeCount prevNodes < 50 then
        (let r = rng (draws st);
             st' = st\<lparr>draws := Suc (draws st)\<rparr>
         in if r > 0.5 then
              (let pos = position node;
                   (normDirX, normDirY) =
                     growth_direction resources pos S (calculateSpatialGradient resources pos);
                   growth = GROWTH_RATE * (0.5 + 0.5 * E);
                   newNode = \<lparr>node_id = length prevNodes + length (nodesToAdd st'),
                              position = \<lparr>vx = vx pos + normDirX * growth,
                                           vy = vy pos + normDirY * growth\<rparr>,
                              energy = E,
                              coherence = coherence node,
                              distortion = distortion node,
                              temporalComplexity = temporalComplexity node + dT,
                              spatialComplexity = S,
                              parent = Some (node_id node),
                              age = 0\<rparr>
               in st'\<lparr>nodesToAdd := nodesToAdd st' @ [newNode]\<rparr>)
            else st')
      else st)"

text \<open>The body of \<open>prevNodes.forEach((node, index) => ...)\<close>.\<close>

definition process_node ::
  "ResourcePoint list \<Rightarrow> (nat \<Rightarrow> real) \<Rightarrow> PlantNode list \<Rightarrow> nat \<Rightarrow> PlantNode
     \<Rightarrow> tick_state \<Rightarrow> tick_state"
where
  "process_node resources rng prevNodes index node st =
     (if age node > 20 then st
      else
        (let S = calculateSpatialComplexity resources (position node);
             E = calculateEnergy resources (position node);
             st1 = st\<lparr>newNodes := (newNodes st)[index := base_update resources node]\<rparr>;
             st2 = branch_block rng prevNodes index node S E st1
         in growth_block resources rng prevNodes node S E (dT_of resources node) st2))"

text \<open>The \<open>forEach\<close> loop over the nodes from position \<open>index\<close> on.\<close>

fun process_all ::
  "ResourcePoint list \<Rightarrow> (nat \<Rightarrow> real) \<Rightarrow> PlantNode list \<Rightarrow> nat \<Rightarrow> PlantNode list
     \<Rightarrow> tick_state \<Rightarrow> tick_state"
where
  "process_all resources rng prevNodes index [] st = st"
| "process_all resources rng prevNodes index (node # rest) st =
     process_all resources rng prevNodes (Suc index) rest
       (process_node resources rng prevNodes index node st)"

definition tick :: "ResourcePoint list \<Rightarrow> (nat \<Rightarrow> real) \<Rightarrow> PlantNode list \<Rightarrow> PlantNode list" where
  "tick resources rng prevNodes =
     (let st = process_all resources rng prevNodes 0 prevNodes
                 \<lparr>newNodes = prevNodes, nodesToAdd = [], draws = 0\<rparr>
      in newNodes st @ nodesToAdd st)"

section \<open>Path derivation (the \<open>paths\<close> effect)\<close>

text \<open>
  A path is an id and the text \<open>d\<close>. The template literals print numbers with
  JavaScript's number-to-string conversion, which is the parameter \<open>fmt\<close>.
\<close>

record PathEntry =
  path_id :: nat
  d :: string

definition moveTo :: "(real \<Rightarrow> string) \<Rightarrow> Vector2D \<Rightarrow> string" where
  "moveTo fmt p = ''M'' @ fmt (vx p) @ '','' @ fmt (vy p)"

definition lineTo :: "(real \<Rightarrow> string) \<Rightarrow> Vector2D \<Rightarrow> string" where
  "lineTo fmt p = '' L'' @ fmt (vx p) @ '','' @ fmt (vy p)"

text \<open>\<open>Array.prototype.findIndex\<close>, with \<open>None\<close> for the result \<open>-1\<close>.\<close>

fun findIndex :: "('a \<Rightarrow> bool) \<Rightarrow> 'a list \<Rightarrow> nat option" where
  "findIndex P [] = None"
| "findIndex P (x # xs) =
     (if P x then Some 0 else map_option Suc (findIndex P xs))"

text \<open>The body of \<open>nodes.forEach(node => ...)\<close>; \<open>allNodes\<close> is the list searched by
  \<open>nodes.find\<close>.\<close>

definition path_step ::
  "(real \<Rightarrow> string) \<Rightarrow> PlantNode list \<Rightarrow> PathEntry list \<Rightarrow> PlantNode \<Rightarrow> PathEntry list"
where
  "path_step fmt allNodes nodePaths node =
     (case parent node of
        None \<Rightarrow> nodePaths
      | Some pid \<Rightarrow>
          (case find (\<lambda>n. node_id n = pid) allNodes of
             None \<Rightarrow> nodePaths
           | Some par \<Rightarrow>
               (case findIndex (\<lambda>p. path_id p = node_id par) nodePaths of
                  None \<Rightarrow>
                    nodePaths @
                      [\<lparr>path_id = node_id par,
                        d = moveTo fmt (position par) @ lineTo fmt (position node)\<rparr>]
                | Some pathIndex \<Rightarrow>
                    nodePaths[pathIndex :=
                      (nodePaths ! pathIndex)
                        \<lparr>d := d (nodePaths ! pathIndex) @ lineTo fmt (position node)\<rparr>])))"

definition derive_paths :: "(real \<Rightarrow> string) \<Rightarrow> PlantNode list \<Rightarrow> PathEntry list" where
  "derive_paths fmt allNodes = foldl (path_step fmt allNodes) [] allNodes"

section \<open>The simulation state\<close>

record sim_state =
  nodes :: "PlantNode list"
  resources :: "ResourcePoint list"
  time :: nat
  paused :: bool

definition seed :: "real \<Rightarrow> real \<Rightarrow> PlantNode" where
  "seed width height =
     \<lparr>node_id = 0,
      position = \<lparr>vx = width / 2, vy = height - 50\<rparr>,
      energy = 0.5,
      coherence = 1.0,
      distortion = 0.0,
      temporalComplexity = 0.0,
      spatialComplexity = 0.5,
      parent = None,
      age = 0\<rparr>"

text \<open>The timer effect: nothing happens while paused; otherwise the time advances and
  the node list is replaced. The resources are not touched.\<close>

definition step :: "(nat \<Rightarrow> real) \<Rightarrow> sim_state \<Rightarrow> sim_state" where
  "step rng s =
     (if paused s then s
      else s\<lparr>time := time s + 1, nodes := tick (resources s) rng (nodes s)\<rparr>)"

text \<open>
  The states of a run: the initial effect puts the seed alone in the node list (the
  resource list it builds is left arbitrary here), the pause flag may be set at any
  moment, and every timer tick draws from some random sequence.
\<close>

inductive reachable :: "sim_state \<Rightarrow> bool" where
  init: "reachable \<lparr>nodes = [seed width height], resources = rs, time = 0, paused = False\<rparr>"
| setPaused: "reachable s \<Longrightarrow> reachable (s\<lparr>paused := b\<rparr>)"
| timer: "reachable s \<Longrightarrow> reachable (step rng s)"

section \<open>Notions used in the statements\<close>

text \<open>The guard of the branching block, with the sampled energy filled in.\<close>

definition branches :: "ResourcePoint list \<Rightarrow> PlantNode list \<Rightarrow> PlantNode \<Rightarrow> bool" where
  "branches res prevNodes node \<longleftrightarrow>
     distortion node > D_CRITICAL \<and> calculateEnergy res (position node) > 0.3 \<and> age node > 5 \<and>
     length (nearbyNodes prevNodes (position node)) < 3"

text \<open>What one tick leaves at the position of a node of the previous list.\<close>

definition updated :: "ResourcePoint list \<Rightarrow> PlantNode list \<Rightarrow> PlantNode \<Rightarrow> PlantNode" where
  "updated res prevNodes node =
     (if age node > 20 then node
      else if branches res prevNodes node then (base_update res node)\<lparr>distortion := 0.5\<rparr>
      else base_update res node)"

text \<open>The nodes collected so far carry the ids that follow those of the previous list.\<close>

definition fresh_ids :: "PlantNode list \<Rightarrow> tick_state \<Rightarrow> bool" where
  "fresh_ids prev st \<longleftrightarrow>
     map node_id (nodesToAdd st) = [length prev ..< length prev + length (nodesToAdd st)]"

text \<open>Several ticks in a row on fixed resources; tick number \<open>k\<close> draws from \<open>rngs k\<close>.\<close>

fun run :: "ResourcePoint list \<Rightarrow> (nat \<Rightarrow> nat \<Rightarrow> real) \<Rightarrow> nat \<Rightarrow> PlantNode list \<Rightarrow> PlantNode list" where
  "run res rngs 0 ns = ns"
| "run res rngs (Suc k) ns = tick res (rngs k) (run res rngs k ns)"

text \<open>The locals of the callback when \<open>forEach\<close> reaches index \<open>i\<close>, that is after the
  first \<open>i\<close> nodes of the previous list; for \<open>i\<close> the length of the list these are the
  locals from which the tick returns \<open>[...newNodes, ...nodesToAdd]\<close>.\<close>

definition loop_state ::
  "ResourcePoint list \<Rightarrow> (nat \<Rightarrow> real) \<Rightarrow> PlantNode list \<Rightarrow> nat \<Rightarrow> tick_state" where
  "loop_state res rng prevNodes i =
     process_all res rng prevNodes 0 (take i prevNodes)
       \<lparr>newNodes = prevNodes, nodesToAdd = [], draws = 0\<rparr>"

text \<open>The locals when the loop, at index \<open>i\<close>, enters the branching block (the base
  update is written), and when it leaves it.\<close>

definition branch_entry ::
  "ResourcePoint list \<Rightarrow> (nat \<Rightarrow> real) \<Rightarrow> PlantNode list \<Rightarrow> nat \<Rightarrow> tick_state" where
  "branch_entry res rng prevNodes i =
     (loop_state res rng prevNodes i)
       \<lparr>newNodes := (newNodes (loop_state res rng prevNodes i))
                       [i := base_update res (prevNodes ! i)]\<rparr>"

definition branch_exit ::
  "ResourcePoint list \<Rightarrow> (nat \<Rightarrow> real) \<Rightarrow> PlantNode list \<Rightarrow> nat \<Rightarrow> tick_state" where
  "branch_exit res rng prevNodes i =
     branch_block rng prevNodes i (prevNodes ! i)
       (calculateSpatialComplexity res (position (prevNodes ! i)))
       (calculateEnergy res (position (prevNodes ! i)))
       (branch_entry res rng prevNodes i)"

text \<open>What every node appended by a tick satisfies, and the invariant of the node list of a
  run: ids are list positions, coherences are not negative, parents are present.\<close>

definition child_ok :: "PlantNode list \<Rightarrow> PlantNode \<Rightarrow> bool" where
  "child_ok prevNodes n \<longleftrightarrow>
     0 \<le> coherence n \<and> (\<exists>p \<in> set prevNodes. parent n = Some (node_id p))"

definition well_formed :: "PlantNode list \<Rightarrow> bool" where
  "well_formed ns \<longleftrightarrow>
     map node_id ns = [0 ..< length ns] \<and>
     (\<forall>n \<in> set ns. 0 \<le> coherence n \<and>
        (\<forall>pid. parent n = Some pid \<longrightarrow> pid < length ns))"

section \<open>Inputs used in the examples\<close>

text \<open>A random source that returns the same number at every call.\<close>

definition constant_rng :: "real \<Rightarrow> nat \<Rightarrow> real" where
  "constant_rng c k = c"

text \<open>The first element of \<open>newResources\<close>: the light source of the initial effect.\<close>

definition initial_light :: "real \<Rightarrow> real \<Rightarrow> ResourcePoint" where
  "initial_light width height =
     \<lparr>r_position = \<lparr>vx = width * 0.875, vy = height * 0.2\<rparr>, intensity = 1.0, r_type = light\<rparr>"

text \<open>A light of intensity 1 at the origin, and a node at the origin with a given id,
  distortion and age.\<close>

definition origin_light :: ResourcePoint where
  "origin_light = \<lparr>r_position = \<lparr>vx = 0, vy = 0\<rparr>, intensity = 1, r_type = light\<rparr>"

definition origin_node :: "nat \<Rightarrow> real \<Rightarrow> nat \<Rightarrow> PlantNode" where
  "origin_node i dis a =
     \<lparr>node_id = i, position = \<lparr>vx = 0, vy = 0\<rparr>, energy = 0.5, coherence = 1.0,
      distortion = dis, temporalComplexity = 0.0, spatialComplexity = 0.5, parent = None,
      age = a\<rparr>"

text \<open>A fresh node with a given id, position and parent, and a number format that is
  right on the two coordinates used, 0 and 1.\<close>

definition example_node :: "nat \<Rightarrow> real \<Rightarrow> real \<Rightarrow> nat option \<Rightarrow> PlantNode" where
  "example_node i px py par =
     \<lparr>node_id = i, position = \<lparr>vx = px, vy = py\<rparr>, energy = 0.5, coherence = 1.0,
      distortion = 0.0, temporalComplexity = 0.0, spatialComplexity = 0.5, parent = par,
      age = 0\<rparr>"

definition digit_fmt :: "real \<Rightarrow> string" where
  "digit_fmt r = (if r = 0 then ''0'' else ''1'')"

section \<open>The wording of the specification, for comparison\<close>

text \<open>
  The branching guard as the specification words it: the distortion after the base
  update exceeds 2.5, the sampled energy exceeds 0.3, the age before the update exceeds
  5, and fewer than 3 other nodes of the previous list lie within 20 units.
\<close>

definition spec_branch_guard :: "ResourcePoint list \<Rightarrow> PlantNode list \<Rightarrow> nat \<Rightarrow> bool" where
  "spec_branch_guard res prevNodes index \<longleftrightarrow>
     (let node = prevNodes ! index in
      distortion (base_update res node) > 2.5 \<and>
      calculateEnergy res (position node) > 0.3 \<and>
      age node > 5 \<and>
      length (filter (\<lambda>j. j \<noteq> index \<and>
                distance (position (prevNodes ! j)) (position node) < 20)
              [0 ..< length prevNodes]) < 3)"


text \<open>
  The path text as the specification words it: the entry of the parent holds a
  line-segment command from the position of the parent to the position of the child.
\<close>

definition spec_segment_present ::
  "(real \<Rightarrow> string) \<Rightarrow> PlantNode \<Rightarrow> PlantNode \<Rightarrow> PathEntry \<Rightarrow> bool" where
  "spec_segment_present fmt par child e \<longleftrightarrow>
     sublist (moveTo fmt (position par) @ lineTo fmt (position child)) (d e)"

section \<open>The invariant of the path loop\<close>

text \<open>The children of a parent id among the nodes seen so far, the text of their line-to
  commands, and what the list \<open>nodePaths\<close> holds after the nodes \<open>xs\<close>: one entry for each
  parent id that is present in the node list and has a child in \<open>xs\<close>.\<close>

definition children_of :: "nat \<Rightarrow> PlantNode list \<Rightarrow> PlantNode list" where
  "children_of pid xs = filter (\<lambda>n. parent n = Some pid) xs"

definition segments :: "(real \<Rightarrow> string) \<Rightarrow> PlantNode list \<Rightarrow> string" where
  "segments fmt cs = concat (map (\<lambda>n. lineTo fmt (position n)) cs)"

definition paths_inv ::
  "(real \<Rightarrow> string) \<Rightarrow> PlantNode list \<Rightarrow> PathEntry list \<Rightarrow> PlantNode list \<Rightarrow> bool" where
  "paths_inv fmt allNodes acc xs \<longleftrightarrow>
     distinct (map path_id acc) \<and>
     (\<forall>e \<in> set acc. \<exists>par. find (\<lambda>n. node_id n = path_id e) allNodes = Some par \<and>
        children_of (path_id e) xs \<noteq> [] \<and>
        d e = moveTo fmt (position par) @ segments fmt (children_of (path_id e) xs)) \<and>
     (\<forall>c \<in> set xs. \<forall>pid. parent c = Some pid \<longrightarrow>
        find (\<lambda>n. node_id n = pid) allNodes \<noteq> None \<longrightarrow> pid \<in> path_id ` set acc)"

section \<open>Properties\<close>

text \<open>
  C7. For every position and every resource list, \<open>calculateEnergy\<close> and
  \<open>calculateSpatialComplexity\<close> lie in the interval from 0.1 to 1.0; each is the clamp
  of its accumulation, which starts at 0.2 for the energy and at 0.5 for the spatial
  complexity.
\<close>

theorem field_values_clamped:
  "0.1 \<le> calculateEnergy res pos \<and> calculateEnergy res pos \<le> 1.0 \<and>
   0.1 \<le> calculateSpatialComplexity res pos \<and> calculateSpatialComplexity res pos \<le> 1.0 \<and>
   calculateEnergy [] pos = 0.2 \<and> calculateSpatialComplexity [] pos = 0.5"
  by (simp add: calculateEnergy_def calculateSpatialComplexity_def)

subsection \<open>The loop over the nodes\<close>

lemma newNodes_growth_block:
  "newNodes (growth_block res rng prev node S E dT st) = newNodes st"
  by (simp add: growth_block_def Let_def split: prod.splits)

lemma newNodes_branch_block:
  "newNodes (branch_block rng prev index node S E st) =
     (if distortion node > D_CRITICAL \<and> E > 0.3 \<and> age node > 5 \<and>
         length (nearbyNodes prev (position node)) < 3
      then (newNodes st)[index := (newNodes st ! index)\<lparr>distortion := 0.5\<rparr>]
      else newNodes st)"
  by (simp add: branch_block_def Let_def)

lemma newNodes_process_node:
  "newNodes (process_node res rng prev index node st) =
     (if age node > 20 then newNodes st
      else (newNodes st)[index := updated res prev node])"
  by (cases "index < length (newNodes st)")
     (simp_all add: process_node_def Let_def newNodes_growth_block newNodes_branch_block
        updated_def branches_def list_update_beyond)

lemma length_newNodes_process_all:
  "length (newNodes (process_all res rng prev index xs st)) = length (newNodes st)"
  by (induction xs arbitrary: index st) (simp_all add: newNodes_process_node)

lemma newNodes_process_all_nth:
  "i < length (newNodes st) \<Longrightarrow>
   newNodes (process_all res rng prev index xs st) ! i =
     (if index \<le> i \<and> i < index + length xs \<and> age (xs ! (i - index)) \<le> 20
      then updated res prev (xs ! (i - index))
      else newNodes st ! i)"
proof (induction xs arbitrary: index st)
  case Nil
  then show ?case by auto
next
  case (Cons node rest)
  let ?st = "process_node res rng prev index node st"
  have len: "i < length (newNodes ?st)"
    using Cons.prems by (simp add: newNodes_process_node)
  show ?case
  proof (cases "i = index")
    case True
    then show ?thesis
      using Cons.IH [OF len, of "Suc index"] Cons.prems
      by (simp add: newNodes_process_node)
  next
    case False
    then show ?thesis
      using Cons.IH [OF len, of "Suc index"] Cons.prems
      by (auto simp add: newNodes_process_node nth_Cons')
  qed
qed

lemma tick_nth_old:
  "i < length prev \<Longrightarrow> tick res rng prev ! i = updated res prev (prev ! i)"
  by (simp add: tick_def Let_def nth_append length_newNodes_process_all newNodes_process_all_nth
      updated_def)

lemma length_tick_ge: "length prev \<le> length (tick res rng prev)"
  by (simp add: tick_def Let_def length_newNodes_process_all)

lemma ids_branch_block:
  "map node_id (nodesToAdd (branch_block rng prev index node S E st)) =
     (if distortion node > D_CRITICAL \<and> E > 0.3 \<and> age node > 5 \<and>
         length (nearbyNodes prev (position node)) < 3
      then map node_id (nodesToAdd st) @ [length prev + length (nodesToAdd st)]
      else map node_id (nodesToAdd st))"
  by (simp add: branch_block_def Let_def)

lemma ids_growth_block:
  "map node_id (nodesToAdd (growth_block res rng prev node S E dT st)) =
     (if coherence node > 0.2 \<and> age node < 15 \<and> activeNodeCount prev < 50 \<and>
         rng (draws st) > 0.5
      then map node_id (nodesToAdd st) @ [length prev + length (nodesToAdd st)]
      else map node_id (nodesToAdd st))"
  by (simp add: growth_block_def Let_def split: prod.splits)

lemma fresh_ids_snoc:
  "fresh_ids prev st \<Longrightarrow> map node_id (nodesToAdd st') =
      map node_id (nodesToAdd st) @ [length prev + length (nodesToAdd st)] \<Longrightarrow>
   fresh_ids prev st'"
proof -
  assume a: "fresh_ids prev st"
    and b: "map node_id (nodesToAdd st') =
      map node_id (nodesToAdd st) @ [length prev + length (nodesToAdd st)]"
  have "length (nodesToAdd st') = Suc (length (nodesToAdd st))"
    using arg_cong [OF b, of length] by simp
  then show ?thesis
    using a b by (simp add: fresh_ids_def)
qed

lemma fresh_ids_same:
  "fresh_ids prev st \<Longrightarrow> map node_id (nodesToAdd st') = map node_id (nodesToAdd st) \<Longrightarrow>
   fresh_ids prev st'"
proof -
  assume a: "fresh_ids prev st"
    and b: "map node_id (nodesToAdd st') = map node_id (nodesToAdd st)"
  have "length (nodesToAdd st') = length (nodesToAdd st)"
    using arg_cong [OF b, of length] by simp
  then show ?thesis
    using a b by (simp add: fresh_ids_def)
qed

lemma fresh_ids_branch_block:
  "fresh_ids prev st \<Longrightarrow> fresh_ids prev (branch_block rng prev index node S E st)"
  by (cases "distortion node > D_CRITICAL \<and> E > 0.3 \<and> age node > 5 \<and>
         length (nearbyNodes prev (position node)) < 3")
     (auto intro: fresh_ids_snoc fresh_ids_same simp add: ids_branch_block)

lemma fresh_ids_growth_block:
  "fresh_ids prev st \<Longrightarrow> fresh_ids prev (growth_block res rng prev node S E dT st)"
  by (cases "coherence node > 0.2 \<and> age node < 15 \<and> activeNodeCount prev < 50 \<and>
         rng (draws st) > 0.5")
     (auto intro: fresh_ids_snoc fresh_ids_same simp add: ids_growth_block)

lemma fresh_ids_process_node:
  "fresh_ids prev st \<Longrightarrow> fresh_ids prev (process_node res rng prev index node st)"
proof -
  assume a: "fresh_ids prev st"
  have "fresh_ids prev (st\<lparr>newNodes := (newNodes st)[index := base_update res node]\<rparr>)"
    using a by (simp add: fresh_ids_def)
  then show ?thesis
    using a
    by (simp add: process_node_def Let_def fresh_ids_branch_block fresh_ids_growth_block)
qed

lemma fresh_ids_process_all:
  "fresh_ids prev st \<Longrightarrow> fresh_ids prev (process_all res rng prev index xs st)"
  by (induction xs arbitrary: index st) (simp_all add: fresh_ids_process_node)

lemma node_id_updated: "node_id (updated res prev node) = node_id node"
  by (simp add: updated_def base_update_def)

lemma position_updated: "position (updated res prev node) = position node"
  by (simp add: updated_def base_update_def)

lemma parent_updated: "parent (updated res prev node) = parent node"
  by (simp add: updated_def base_update_def)

lemma take_tick_ids:
  "map node_id (take (length prev) (tick res rng prev)) = map node_id prev"
  by (rule nth_equalityI)
     (simp_all add: length_tick_ge min_absorb2 tick_nth_old node_id_updated)

lemma drop_tick_ids:
  "map node_id (drop (length prev) (tick res rng prev)) =
     [length prev ..< length (tick res rng prev)]"
proof -
  let ?st = "process_all res rng prev 0 prev \<lparr>newNodes = prev, nodesToAdd = [], draws = 0\<rparr>"
  have "fresh_ids prev ?st"
    by (rule fresh_ids_process_all) (simp add: fresh_ids_def)
  then show ?thesis
    by (simp add: tick_def Let_def length_newNodes_process_all fresh_ids_def)
qed

lemma tick_ids:
  assumes "map node_id prev = [0 ..< length prev]"
  shows "map node_id (tick res rng prev) = [0 ..< length (tick res rng prev)]"
proof -
  have "map node_id (tick res rng prev) =
        map node_id (take (length prev) (tick res rng prev)) @
        map node_id (drop (length prev) (tick res rng prev))"
    by (simp flip: map_append)
  also have "\<dots> = [0 ..< length prev] @ [length prev ..< length (tick res rng prev)]"
    by (simp only: take_tick_ids drop_tick_ids assms)
  also have "\<dots> = [0 ..< length (tick res rng prev)]"
    using length_tick_ge [of prev res rng] upt_add_eq_append [of 0 "length prev"]
    by (auto simp add: le_iff_add)
  finally show ?thesis .
qed

lemma reachable_ids: "reachable s \<Longrightarrow> map node_id (nodes s) = [0 ..< length (nodes s)]"
proof (induction rule: reachable.induct)
  case (init width height rs)
  show ?case by (simp add: seed_def)
next
  case (setPaused s b)
  then show ?case by simp
next
  case (timer s rng)
  then show ?case by (simp add: step_def tick_ids)
qed


lemma process_node_inert: "age node > 20 \<Longrightarrow> process_node res rng prev index node st = st"
  by (simp add: process_node_def)

lemma run_inert:
  "i < length ns \<Longrightarrow> age (ns ! i) > 20 \<Longrightarrow>
   i < length (run res rngs k ns) \<and> run res rngs k ns ! i = ns ! i"
proof (induction k)
  case 0
  then show ?case by simp
next
  case (Suc k)
  then have a: "i < length (run res rngs k ns)" and b: "run res rngs k ns ! i = ns ! i"
    by simp_all
  have "i < length (tick res (rngs k) (run res rngs k ns))"
    using a length_tick_ge [of "run res rngs k ns" res "rngs k"] by simp
  moreover have "tick res (rngs k) (run res rngs k ns) ! i = ns ! i"
    using Suc.prems(2) by (simp add: tick_nth_old [OF a] b updated_def)
  ultimately show ?case by simp
qed

text \<open>
  C5. A node of age at most 20 is one tick older after the tick. A node older than 20
  is inert: however many ticks follow it stays in the list, at its position, with every
  field as it was, and processing it changes neither list and draws no random number, so
  it neither grows nor branches.
\<close>

theorem age_advances_until_inert:
  assumes "i < length prev"
  shows "(age (prev ! i) \<le> 20 \<longrightarrow> age (tick res rng prev ! i) = age (prev ! i) + 1) \<and>
         (age (prev ! i) > 20 \<longrightarrow>
            (\<forall>k. i < length (run res rngs k prev) \<and> run res rngs k prev ! i = prev ! i) \<and>
            (\<forall>ns index st. process_node res rng ns index (prev ! i) st = st))"
  using assms
  by (simp add: tick_nth_old updated_def base_update_def run_inert process_node_inert)

theorem age_advances_until_inert_witness:
  "age (tick [] (\<lambda>k. 0) [seed 800 600] ! 0) = 1 \<and>
   run [] (\<lambda>t k. 0) 7 [(seed 800 600)\<lparr>age := 21\<rparr>] ! 0 = (seed 800 600)\<lparr>age := 21\<rparr>"
  using age_advances_until_inert [of 0 "[seed 800 600]" "[]" "\<lambda>k. 0"]
    age_advances_until_inert [of 0 "[(seed 800 600)\<lparr>age := 21\<rparr>]" "[]" "\<lambda>k. 0" "\<lambda>t k. 0"]
  by (simp add: seed_def)

text \<open>
  C10. Frame of the timer tick: no node is removed, every node of the old list keeps its
  id, its position and its parent (so only the other six fields are rewritten), and the
  resource list is the same afterwards.
\<close>

theorem tick_frame:
  "length (nodes s) \<le> length (nodes (step rng s)) \<and>
   resources (step rng s) = resources s \<and>
   (\<forall>i < length (nodes s).
      node_id (nodes (step rng s) ! i) = node_id (nodes s ! i) \<and>
      position (nodes (step rng s) ! i) = position (nodes s ! i) \<and>
      parent (nodes (step rng s) ! i) = parent (nodes s ! i))"
  by (simp add: step_def length_tick_ge tick_nth_old node_id_updated position_updated
      parent_updated)

theorem tick_frame_witness:
  "position (nodes (step (\<lambda>k. 0.9)
      \<lparr>nodes = [seed 800 600], resources = [], time = 0, paused = False\<rparr>) ! 0) =
     \<lparr>vx = 400, vy = 550\<rparr>"
  using tick_frame [of "\<lparr>nodes = [seed 800 600], resources = [], time = 0, paused = False\<rparr>"
      "\<lambda>k. 0.9"]
  by (simp add: seed_def)

subsection \<open>Ids\<close>

text \<open>
  C9. In every reachable state the id of a node is its position in the list, so ids are
  unique and increase in creation order. A tick keeps every old node in its slot with
  its id, never shortens the list, and every node it appends has an id above all ids of
  the old list.
\<close>

theorem ids_unique_increasing_append_only:
  assumes "reachable s"
  shows "map node_id (nodes s) = [0 ..< length (nodes s)] \<and>
         distinct (map node_id (nodes s)) \<and>
         sorted_wrt (<) (map node_id (nodes s)) \<and>
         length (nodes s) \<le> length (nodes (step rng s)) \<and>
         (\<forall>i < length (nodes s). node_id (nodes (step rng s) ! i) = node_id (nodes s ! i)) \<and>
         (\<forall>j < length (nodes (step rng s)). length (nodes s) \<le> j \<longrightarrow>
            (\<forall>i < length (nodes s). node_id (nodes s ! i) < node_id (nodes (step rng s) ! j)))"
proof -
  have ids: "map node_id (nodes s) = [0 ..< length (nodes s)]"
    using assms by (rule reachable_ids)
  have ids': "map node_id (nodes (step rng s)) = [0 ..< length (nodes (step rng s))]"
    using assms by (intro reachable_ids reachable.timer)
  have nth: "node_id (nodes s ! i) = i" if "i < length (nodes s)" for i
    using arg_cong [OF ids, of "\<lambda>xs. xs ! i"] that by simp
  have nth': "node_id (nodes (step rng s) ! j) = j" if "j < length (nodes (step rng s))" for j
    using arg_cong [OF ids', of "\<lambda>xs. xs ! j"] that by simp
  have len: "length (nodes s) \<le> length (nodes (step rng s))"
    by (simp add: step_def length_tick_ge)
  have "distinct (map node_id (nodes s))" and "sorted_wrt (<) (map node_id (nodes s))"
    by (simp_all only: ids distinct_upt sorted_wrt_upt)
  moreover have "\<forall>i < length (nodes s). node_id (nodes (step rng s) ! i) = node_id (nodes s ! i)"
    using len by (simp add: nth nth')
  moreover have "\<forall>j < length (nodes (step rng s)). length (nodes s) \<le> j \<longrightarrow>
            (\<forall>i < length (nodes s). node_id (nodes s ! i) < node_id (nodes (step rng s) ! j))"
    by (simp add: nth nth')
  ultimately show ?thesis using ids len by blast
qed

lemma tick_seed_grows:
  "length (tick [] (constant_rng 0.9) [seed 800 600]) = 2"
  by (simp add: tick_def process_node_def branch_block_def growth_block_def seed_def Let_def
      D_CRITICAL_def activeNodeCount_def constant_rng_def split: prod.splits)

theorem ids_unique_increasing_append_only_witness:
  "reachable \<lparr>nodes = [seed 800 600], resources = [], time = 0, paused = False\<rparr> \<and>
   node_id (nodes (step (constant_rng 0.9)
      \<lparr>nodes = [seed 800 600], resources = [], time = 0, paused = False\<rparr>) ! 0) = 0 \<and>
   0 < node_id (nodes (step (constant_rng 0.9)
      \<lparr>nodes = [seed 800 600], resources = [], time = 0, paused = False\<rparr>) ! 1)"
proof -
  let ?s = "\<lparr>nodes = [seed 800 600], resources = [], time = 0, paused = False\<rparr>"
  have r: "reachable ?s" by (rule reachable.init)
  have l: "length (nodes (step (constant_rng 0.9) ?s)) = 2"
    by (simp add: step_def tick_seed_grows)
  show ?thesis
    using r l ids_unique_increasing_append_only [OF r, of "constant_rng 0.9"]
    by (simp add: seed_def)
qed

subsection \<open>Branching, growth and the temporal complexity\<close>

lemma energy_at_origin_light: "calculateEnergy [origin_light] \<lparr>vx = 0, vy = 0\<rparr> = 1"
  by (simp add: calculateEnergy_def energy_step_def origin_light_def distance_def
      MAX_ENERGY_DISTANCE_def)

lemma calculateEnergy_pos: "0 < calculateEnergy res pos"
  by (simp add: calculateEnergy_def max_def)

lemma dD_of_nonneg: "0 \<le> dD_of res node"
proof -
  have "0 \<le> \<bar>dH_of res node\<bar> * calculateEnergy res (position node)"
    using calculateEnergy_pos [of res "position node"] by simp
  then show ?thesis
    by (simp add: dD_of_def BETA_def)
qed

lemma gradS_of_nonneg: "0 \<le> gradS_of res node"
  by (simp add: gradS_of_def Let_def)

lemma dH_of_neg:
  assumes "0 < distortion node" and "0 \<le> coherence node"
  shows "dH_of res node < 0"
proof -
  have "0 < distortion node / (coherence node + EPSILON)"
    using assms by (simp add: EPSILON_def add_nonneg_pos)
  moreover have "0 \<le> gradS_of res node * COMPLEXITY_GRADIENT_SCALE"
    using gradS_of_nonneg [of res node] by (simp add: COMPLEXITY_GRADIENT_SCALE_def)
  moreover have "coherence node + EPSILON \<noteq> 0"
    using assms(2) by (simp add: EPSILON_def add_nonneg_eq_0_iff)
  ultimately show ?thesis
    by (simp add: dH_of_def dD_dH_of_def js_div_def ALPHA_def)
qed

lemma dD_of_pos:
  assumes "0 < distortion node" and "0 \<le> coherence node"
  shows "0 < dD_of res node"
proof -
  have "0 < \<bar>dH_of res node\<bar>"
    using dH_of_neg [OF assms, of res] by simp
  then have "0 < \<bar>dH_of res node\<bar> * calculateEnergy res (position node)"
    by (intro mult_pos_pos calculateEnergy_pos)
  then show ?thesis
    by (simp add: dD_of_def BETA_def)
qed

lemma dT_of_pos:
  assumes "0 < distortion node" and "0 < coherence node"
  shows "0 < dT_of res node"
proof -
  have "0 < \<bar>dH_of res node\<bar>"
    using dH_of_neg [of node res] assms by simp
  then have "0 < \<bar>dH_of res node\<bar> * calculateEnergy res (position node)"
    by (intro mult_pos_pos calculateEnergy_pos)
  then show ?thesis
    using assms by (simp add: dT_of_def BETA_def)
qed

lemma no_branch_at_threshold:
  "length (tick [origin_light] (constant_rng 0) [origin_node 0 2.5 16]) = 1"
  by (simp add: tick_def process_node_def branch_block_def growth_block_def Let_def
      origin_node_def D_CRITICAL_def)

lemma spec_guard_at_threshold: "spec_branch_guard [origin_light] [origin_node 0 2.5 16] 0"
proof -
  have "0 < dD_of [origin_light] (origin_node 0 2.5 16)"
    by (rule dD_of_pos) (simp_all add: origin_node_def)
  then show ?thesis
    by (simp add: spec_branch_guard_def base_update_def origin_node_def energy_at_origin_light)
qed

lemma no_branch_two_neighbours:
  "length (tick [origin_light] (constant_rng 0)
      [origin_node 0 3 16, origin_node 1 0 30, origin_node 2 0 30]) = 3"
  by (simp add: tick_def process_node_def branch_block_def growth_block_def Let_def
      origin_node_def D_CRITICAL_def nearbyNodes_def distance_def energy_at_origin_light)

lemma spec_guard_two_neighbours:
  "spec_branch_guard [origin_light] [origin_node 0 3 16, origin_node 1 0 30, origin_node 2 0 30] 0"
proof -
  have "0 \<le> dD_of [origin_light] (origin_node 0 3 16)"
    by (rule dD_of_nonneg)
  then show ?thesis
    by (simp add: spec_branch_guard_def base_update_def origin_node_def energy_at_origin_light
        distance_def upt_rec [of 0] upt_rec [of 1] upt_rec [of 2] )
qed

text \<open>
  C1, as worded, fails in two ways. A lone node whose distortion is exactly 2.5 has a
  distortion above 2.5 after the base update, yet the tick adds no node: the guard reads
  the distortion from before the update. A node with two others at its position has two
  other nodes nearby, yet the tick adds no node: the count includes the node itself.
\<close>

theorem spec_branch_guard_counterexample:
  "spec_branch_guard [origin_light] [origin_node 0 2.5 16] 0 \<and>
   length (tick [origin_light] (constant_rng 0) [origin_node 0 2.5 16]) = 1 \<and>
   spec_branch_guard [origin_light]
     [origin_node 0 3 16, origin_node 1 0 30, origin_node 2 0 30] 0 \<and>
   length (tick [origin_light] (constant_rng 0)
     [origin_node 0 3 16, origin_node 1 0 30, origin_node 2 0 30]) = 3"
  by (simp only: spec_guard_at_threshold no_branch_at_threshold spec_guard_two_neighbours
      no_branch_two_neighbours)

lemma nodesToAdd_branch_block:
  "nodesToAdd (branch_block rng prev index node S E st) =
     (if distortion node > D_CRITICAL \<and> E > 0.3 \<and> age node > 5 \<and>
         length (nearbyNodes prev (position node)) < 3
      then nodesToAdd st @
        [\<lparr>node_id = length prev + length (nodesToAdd st),
          position =
            \<lparr>vx = vx (position node)
                   + cos (rng (draws st) * 2 * pi) * (GROWTH_RATE * (0.5 + 0.5 * E)),
             vy = vy (position node)
                   + sin (rng (draws st) * 2 * pi) * (GROWTH_RATE * (0.5 + 0.5 * E))\<rparr>,
          energy = E, coherence = 1.0, distortion = 0.0,
          temporalComplexity = temporalComplexity node, spatialComplexity = S,
          parent = Some (node_id node), age = 0\<rparr>]
      else nodesToAdd st)"
  by (simp add: branch_block_def Let_def)

lemma branch_block_idle:
  "\<not> (distortion node > D_CRITICAL \<and> E > 0.3 \<and> age node > 5 \<and>
       length (nearbyNodes prev (position node)) < 3) \<Longrightarrow>
   branch_block rng prev index node S E st = st"
  by (auto simp add: branch_block_def Let_def)

lemma nodesToAdd_growth_block:
  "nodesToAdd (growth_block res rng prev node S E dT st) =
     (if coherence node > 0.2 \<and> age node < 15 \<and> activeNodeCount prev < 50 \<and>
         rng (draws st) > 0.5
      then nodesToAdd st @
        [\<lparr>node_id = length prev + length (nodesToAdd st),
          position =
            \<lparr>vx = vx (position node)
                   + fst (growth_direction res (position node) S
                            (calculateSpatialGradient res (position node)))
                     * (GROWTH_RATE * (0.5 + 0.5 * E)),
             vy = vy (position node)
                   + snd (growth_direction res (position node) S
                            (calculateSpatialGradient res (position node)))
                     * (GROWTH_RATE * (0.5 + 0.5 * E))\<rparr>,
          energy = E, coherence = coherence node, distortion = distortion node,
          temporalComplexity = temporalComplexity node + dT, spatialComplexity = S,
          parent = Some (node_id node), age = 0\<rparr>]
      else nodesToAdd st)"
  by (simp add: growth_block_def Let_def case_prod_beta)

lemma growth_block_low_draws:
  "\<forall>k. rng k \<le> 0.5 \<Longrightarrow>
   nodesToAdd (growth_block res rng prev node S E dT st) = nodesToAdd st"
  by (simp add: nodesToAdd_growth_block not_less [symmetric])

lemma process_node_low_draws:
  assumes "\<forall>k. rng k \<le> 0.5"
    and "n \<in> set (nodesToAdd (process_node res rng prev index node st))"
  shows "n \<in> set (nodesToAdd st) \<or>
         (age node \<le> 20 \<and> branches res prev node \<and> parent n = Some (node_id node) \<and>
          coherence n = 1 \<and> distortion n = 0)"
proof (cases "age node > 20")
  case True
  then show ?thesis using assms(2) by (simp add: process_node_def)
next
  case False
  then show ?thesis
    using assms(2)
    by (auto simp add: process_node_def Let_def growth_block_low_draws [OF assms(1)]
        nodesToAdd_branch_block branches_def split: if_splits)
qed

lemma process_all_low_draws:
  assumes "\<forall>k. rng k \<le> 0.5"
  shows "n \<in> set (nodesToAdd (process_all res rng prev index xs st)) \<Longrightarrow>
         n \<in> set (nodesToAdd st) \<or>
         (\<exists>node \<in> set xs. age node \<le> 20 \<and> branches res prev node \<and>
            parent n = Some (node_id node) \<and> coherence n = 1 \<and> distortion n = 0)"
proof (induction xs arbitrary: index st)
  case Nil
  then show ?case by simp
next
  case (Cons node rest)
  from Cons.IH [of "Suc index" "process_node res rng prev index node st"] Cons.prems
  have "n \<in> set (nodesToAdd (process_node res rng prev index node st)) \<or>
        (\<exists>node \<in> set rest. age node \<le> 20 \<and> branches res prev node \<and>
            parent n = Some (node_id node) \<and> coherence n = 1 \<and> distortion n = 0)"
    by simp
  then show ?case
    using process_node_low_draws [OF assms, of n res prev index node st] by auto
qed

lemma tick_low_draws:
  assumes "\<forall>k. rng k \<le> 0.5" and "n \<in> set (drop (length prev) (tick res rng prev))"
  shows "\<exists>node \<in> set prev. age node \<le> 20 \<and> branches res prev node \<and>
            parent n = Some (node_id node) \<and> coherence n = 1 \<and> distortion n = 0"
  using assms(2)
    process_all_low_draws [OF assms(1), of n res prev 0 prev
      "\<lparr>newNodes = prev, nodesToAdd = [], draws = 0\<rparr>"]
  by (simp add: tick_def Let_def length_newNodes_process_all)

text \<open>
  C6. The growth block appends a child exactly when the coherence of the node exceeds
  0.2, its age is below 15, fewer than 50 nodes of the previous list have an age below 15,
  and the draw exceeds 0.5. With a source that always returns the same number below 0.5
  the block appends nothing, and every node a tick appends is then the child of a
  branching node.
\<close>

theorem growth_only_if_guard:
  "((\<exists>child. nodesToAdd (growth_block res rng prev node S E dT st) = nodesToAdd st @ [child])
      \<longleftrightarrow>
      coherence node > 0.2 \<and> age node < 15 \<and>
      length (filter (\<lambda>n. age n < 15) prev) < 50 \<and> rng (draws st) > 0.5) \<and>
   ((\<forall>k. rng k = c) \<and> c < 0.5 \<longrightarrow>
      nodesToAdd (growth_block res rng prev node S E dT st) = nodesToAdd st \<and>
      (\<forall>n \<in> set (drop (length prev) (tick res rng prev)).
         \<exists>p \<in> set prev. age p \<le> 20 \<and> branches res prev p \<and>
           parent n = Some (node_id p) \<and> coherence n = 1 \<and> distortion n = 0))"
proof -
  have "(\<exists>child. nodesToAdd (growth_block res rng prev node S E dT st) = nodesToAdd st @ [child])
      \<longleftrightarrow>
      coherence node > 0.2 \<and> age node < 15 \<and>
      length (filter (\<lambda>n. age n < 15) prev) < 50 \<and> rng (draws st) > 0.5"
    by (simp add: nodesToAdd_growth_block activeNodeCount_def)
  moreover have "nodesToAdd (growth_block res rng prev node S E dT st) = nodesToAdd st \<and>
      (\<forall>n \<in> set (drop (length prev) (tick res rng prev)).
         \<exists>p \<in> set prev. age p \<le> 20 \<and> branches res prev p \<and>
           parent n = Some (node_id p) \<and> coherence n = 1 \<and> distortion n = 0)"
    if "(\<forall>k. rng k = c) \<and> c < 0.5"
  proof -
    from that have low: "\<forall>k. rng k \<le> 0.5" by simp
    show ?thesis
      using growth_block_low_draws [OF low] tick_low_draws [OF low] by blast
  qed
  ultimately show ?thesis by blast
qed

text \<open>
  C6, witness: the seed grows when the draw is 0.9, and a tick on the seed with every draw
  0.2 appends no node.
\<close>

theorem growth_only_if_guard_witness:
  "length (nodesToAdd (growth_block [] (constant_rng 0.9) [seed 800 600] (seed 800 600)
      0.5 0.2 0 \<lparr>newNodes = [seed 800 600], nodesToAdd = [], draws = 0\<rparr>)) = 1 \<and>
   drop 1 (tick [] (constant_rng 0.2) [seed 800 600]) = []"
proof -
  have a: "length (nodesToAdd (growth_block [] (constant_rng 0.9) [seed 800 600] (seed 800 600)
      0.5 0.2 0 \<lparr>newNodes = [seed 800 600], nodesToAdd = [], draws = 0\<rparr>)) = 1"
    using growth_only_if_guard [of "[]" "constant_rng 0.9" "[seed 800 600]" "seed 800 600"
        "0.5" "0.2" 0 "\<lparr>newNodes = [seed 800 600], nodesToAdd = [], draws = 0\<rparr>" 0]
    by (auto simp add: seed_def constant_rng_def)
  have "\<forall>n \<in> set (drop 1 (tick [] (constant_rng 0.2) [seed 800 600])). False"
    using growth_only_if_guard [of "[]" "constant_rng 0.2" "[seed 800 600]" "seed 800 600"
        "0.5" "0.2" 0 "\<lparr>newNodes = [seed 800 600], nodesToAdd = [], draws = 0\<rparr>" "0.2"]
    by (simp add: seed_def constant_rng_def branches_def D_CRITICAL_def)
  then have b: "drop 1 (tick [] (constant_rng 0.2) [seed 800 600]) = []"
    by (cases "drop 1 (tick [] (constant_rng 0.2) [seed 800 600])") simp_all
  show ?thesis using a b by simp
qed

lemma draws_branch_block:
  "draws (branch_block rng prev index node S E st) =
     (if distortion node > D_CRITICAL \<and> E > 0.3 \<and> age node > 5 \<and>
         length (nearbyNodes prev (position node)) < 3
      then Suc (draws st) else draws st)"
  by (simp add: branch_block_def Let_def)

text \<open>
  C3, amended. A tick adds \<open>dT = BETA * tanh (\<bar>dH\<bar> * E) * sgn H\<close> to the temporal
  complexity of a processed node exactly once, whether or not the node grows. When the
  growth block fires, the child it appends starts with the temporal complexity of its
  parent before the update plus \<open>dT\<close>, which is the value the parent has after the tick.
\<close>

theorem temporal_complexity_applied_once:
  assumes "i < length prev" and "age (prev ! i) \<le> 20"
  shows "temporalComplexity (tick res rng prev ! i) =
           temporalComplexity (prev ! i) + dT_of res (prev ! i) \<and>
         dT_of res (prev ! i) =
           BETA * tanh (\<bar>dH_of res (prev ! i)\<bar> * calculateEnergy res (position (prev ! i)))
             * sgn (coherence (prev ! i)) \<and>
         (coherence (prev ! i) > 0.2 \<and> age (prev ! i) < 15 \<and>
          length (filter (\<lambda>n. age n < 15) prev) < 50 \<and>
          rng (draws st + (if branches res prev (prev ! i) then 1 else 0)) > 0.5 \<longrightarrow>
            temporalComplexity
              (last (nodesToAdd (process_node res rng prev i (prev ! i) st))) =
            temporalComplexity (prev ! i) + dT_of res (prev ! i) \<and>
            parent (last (nodesToAdd (process_node res rng prev i (prev ! i) st))) =
            Some (node_id (prev ! i)))"
proof -
  have "temporalComplexity (tick res rng prev ! i) =
           temporalComplexity (prev ! i) + dT_of res (prev ! i)"
    using assms by (simp add: tick_nth_old updated_def base_update_def)
  moreover have "coherence (prev ! i) > 0.2 \<and> age (prev ! i) < 15 \<and>
          length (filter (\<lambda>n. age n < 15) prev) < 50 \<and>
          rng (draws st + (if branches res prev (prev ! i) then 1 else 0)) > 0.5 \<longrightarrow>
            temporalComplexity
              (last (nodesToAdd (process_node res rng prev i (prev ! i) st))) =
            temporalComplexity (prev ! i) + dT_of res (prev ! i) \<and>
            parent (last (nodesToAdd (process_node res rng prev i (prev ! i) st))) =
            Some (node_id (prev ! i))"
    using assms(2)
    by (simp add: process_node_def Let_def nodesToAdd_growth_block draws_branch_block
        branches_def activeNodeCount_def)
  ultimately show ?thesis by (simp add: dT_of_def)
qed

lemma tick_origin_node_grows:
  "length (tick [] (constant_rng 0.9) [origin_node 0 1 0]) = 2"
  by (simp add: tick_def process_node_def branch_block_def growth_block_def origin_node_def
      Let_def D_CRITICAL_def activeNodeCount_def constant_rng_def split: prod.splits)

text \<open>
  C3, as worded, fails: a node with distortion 1 and coherence 1 grows on a draw of 0.9 (the
  tick returns two nodes), and its temporal complexity afterwards is not the old one plus
  twice \<open>dT\<close>.
\<close>

theorem double_dT_counterexample:
  "length (tick [] (constant_rng 0.9) [origin_node 0 1 0]) = 2 \<and>
   temporalComplexity (tick [] (constant_rng 0.9) [origin_node 0 1 0] ! 0) \<noteq>
     temporalComplexity (origin_node 0 1 0) + 2 * dT_of [] (origin_node 0 1 0)"
proof -
  have "0 < dT_of [] (origin_node 0 1 0)"
    by (rule dT_of_pos) (simp_all add: origin_node_def)
  moreover have "temporalComplexity (tick [] (constant_rng 0.9) [origin_node 0 1 0] ! 0) =
     temporalComplexity (origin_node 0 1 0) + dT_of [] (origin_node 0 1 0)"
    by (simp add: tick_nth_old updated_def base_update_def origin_node_def)
  ultimately show ?thesis
    by (simp add: tick_origin_node_grows)
qed

text \<open>
  C3, witness: for that node both the updated parent and the growth child have temporal
  complexity \<open>dT\<close>.
\<close>

theorem temporal_complexity_applied_once_witness:
  "temporalComplexity (tick [] (constant_rng 0.9) [origin_node 0 1 0] ! 0) =
     dT_of [] (origin_node 0 1 0) \<and>
   temporalComplexity (last (nodesToAdd (process_node [] (constant_rng 0.9) [origin_node 0 1 0]
       0 (origin_node 0 1 0) \<lparr>newNodes = [origin_node 0 1 0], nodesToAdd = [], draws = 0\<rparr>))) =
     dT_of [] (origin_node 0 1 0)"
proof -
  have f: "age (origin_node 0 1 0) = 0" "coherence (origin_node 0 1 0) = 1"
    "temporalComplexity (origin_node 0 1 0) = 0" "distortion (origin_node 0 1 0) = 1"
    by (simp_all add: origin_node_def)
  show ?thesis
    using temporal_complexity_applied_once [of 0 "[origin_node 0 1 0]" "[]" "constant_rng 0.9"
        "\<lparr>newNodes = [origin_node 0 1 0], nodesToAdd = [], draws = 0\<rparr>"]
    by (simp add: f constant_rng_def branches_def D_CRITICAL_def)
qed

subsection \<open>The loop, node by node\<close>

lemma process_all_append:
  "process_all res rng prev index (xs @ ys) st =
     process_all res rng prev (index + length xs) ys (process_all res rng prev index xs st)"
  by (induction xs arbitrary: index st) simp_all

lemma loop_state_Suc:
  "i < length prev \<Longrightarrow>
   loop_state res rng prev (Suc i) =
     process_node res rng prev i (prev ! i) (loop_state res rng prev i)"
  by (simp add: loop_state_def take_Suc_conv_app_nth process_all_append)

lemma tick_loop_state:
  "tick res rng prev =
     newNodes (loop_state res rng prev (length prev)) @
     nodesToAdd (loop_state res rng prev (length prev))"
  by (simp add: tick_def loop_state_def Let_def)

lemma process_node_extends:
  "\<exists>ys. nodesToAdd (process_node res rng prev index node st) = nodesToAdd st @ ys"
  by (simp add: process_node_def Let_def nodesToAdd_growth_block nodesToAdd_branch_block)

lemma process_all_extends:
  "\<exists>ys. nodesToAdd (process_all res rng prev index xs st) = nodesToAdd st @ ys"
proof (induction xs arbitrary: index st)
  case Nil
  show ?case by simp
next
  case (Cons node rest)
  obtain ys where a: "nodesToAdd (process_node res rng prev index node st) = nodesToAdd st @ ys"
    using process_node_extends by blast
  obtain zs where "nodesToAdd (process_all res rng prev (Suc index) rest
        (process_node res rng prev index node st)) =
      nodesToAdd (process_node res rng prev index node st) @ zs"
    using Cons.IH by blast
  then show ?case using a by simp
qed

lemma loop_state_final:
  assumes "j \<le> length prev"
  shows "\<exists>ys. nodesToAdd (loop_state res rng prev (length prev)) =
     nodesToAdd (loop_state res rng prev j) @ ys"
proof -
  have "prev = take j prev @ drop j prev" by simp
  then have "loop_state res rng prev (length prev) =
      process_all res rng prev (0 + length (take j prev)) (drop j prev) (loop_state res rng prev j)"
    unfolding loop_state_def by (metis process_all_append take_all order_refl)
  then show ?thesis
    using process_all_extends by simp
qed

lemma tick_nth_new:
  assumes "j \<le> length prev" and "k < length (nodesToAdd (loop_state res rng prev j))"
  shows "length prev + k < length (tick res rng prev) \<and>
         tick res rng prev ! (length prev + k) = nodesToAdd (loop_state res rng prev j) ! k"
proof -
  obtain ys where "nodesToAdd (loop_state res rng prev (length prev)) =
     nodesToAdd (loop_state res rng prev j) @ ys"
    using loop_state_final [OF assms(1)] by blast
  moreover have "length (newNodes (loop_state res rng prev (length prev))) = length prev"
    by (simp add: loop_state_def length_newNodes_process_all)
  ultimately show ?thesis
    using assms(2) by (simp add: tick_loop_state nth_append)
qed


lemma nodesToAdd_branch_entry:
  "nodesToAdd (branch_entry res rng prev i) = nodesToAdd (loop_state res rng prev i)"
  by (simp add: branch_entry_def)

lemma loop_state_step:
  assumes "i < length prev" and "age (prev ! i) \<le> 20"
  shows "loop_state res rng prev (Suc i) =
      growth_block res rng prev (prev ! i)
        (calculateSpatialComplexity res (position (prev ! i)))
        (calculateEnergy res (position (prev ! i))) (dT_of res (prev ! i))
        (branch_exit res rng prev i)"
  using assms
  by (simp add: loop_state_Suc process_node_def Let_def branch_exit_def branch_entry_def)

lemma growth_block_extends:
  "\<exists>ys. nodesToAdd (growth_block res rng prev node S E dT st) = nodesToAdd st @ ys"
  by (simp add: nodesToAdd_growth_block)

lemma branch_child_returned:
  assumes "i < length prev" and "age (prev ! i) \<le> 20"
    and "nodesToAdd (branch_exit res rng prev i) =
           nodesToAdd (loop_state res rng prev i) @ [child]"
  shows "length prev + length (nodesToAdd (loop_state res rng prev i))
           < length (tick res rng prev) \<and>
         tick res rng prev ! (length prev + length (nodesToAdd (loop_state res rng prev i)))
           = child \<and>
         parent child = Some (node_id (prev ! i))"
proof -
  let ?k = "length (nodesToAdd (loop_state res rng prev i))"
  obtain ys where "nodesToAdd (loop_state res rng prev (Suc i)) =
      nodesToAdd (branch_exit res rng prev i) @ ys"
    using growth_block_extends unfolding loop_state_step [OF assms(1,2)] by blast
  then have next_state: "nodesToAdd (loop_state res rng prev (Suc i)) =
      nodesToAdd (loop_state res rng prev i) @ child # ys"
    using assms(3) by simp
  then have "?k < length (nodesToAdd (loop_state res rng prev (Suc i)))"
    and "nodesToAdd (loop_state res rng prev (Suc i)) ! ?k = child"
    by simp_all
  then have "length prev + ?k < length (tick res rng prev) \<and>
      tick res rng prev ! (length prev + ?k) = child"
    using tick_nth_new [of "Suc i" prev ?k res rng] assms(1) by simp
  moreover have "parent child = Some (node_id (prev ! i))"
    using assms(3)
    by (auto simp add: branch_exit_def nodesToAdd_branch_block nodesToAdd_branch_entry
        split: if_splits)
  ultimately show ?thesis by simp
qed

lemma appended_by_some_node:
  assumes "j \<le> length prev" and "n \<in> set (nodesToAdd (loop_state res rng prev j))"
  shows "\<exists>i < j. age (prev ! i) \<le> 20 \<and>
           (nodesToAdd (branch_exit res rng prev i) =
              nodesToAdd (loop_state res rng prev i) @ [n] \<or>
            nodesToAdd (loop_state res rng prev (Suc i)) =
              nodesToAdd (branch_exit res rng prev i) @ [n])"
  using assms
proof (induction j)
  case 0
  then show ?case by (simp add: loop_state_def)
next
  case (Suc j)
  then have j: "j < length prev" by simp
  show ?case
  proof (cases "age (prev ! j) \<le> 20")
    case False
    then have "loop_state res rng prev (Suc j) = loop_state res rng prev j"
      using j by (simp add: loop_state_Suc process_node_def)
    then show ?thesis
      using Suc j by (metis less_Suc_eq less_imp_le_nat)
  next
    case True
    let ?a = "nodesToAdd (loop_state res rng prev j)"
    let ?b = "nodesToAdd (branch_exit res rng prev j)"
    let ?c = "nodesToAdd (loop_state res rng prev (Suc j))"
    have b: "?b = ?a \<or> (\<exists>x. ?b = ?a @ [x])"
      by (simp add: branch_exit_def nodesToAdd_branch_block nodesToAdd_branch_entry)
    have c: "?c = ?b \<or> (\<exists>x. ?c = ?b @ [x])"
      by (simp add: loop_state_step [OF j True] nodesToAdd_growth_block)
    from Suc.prems(2) b c consider "n \<in> set ?a" | "?b = ?a @ [n]" | "?c = ?b @ [n]"
      by auto
    then show ?thesis
    proof cases
      case 1
      then show ?thesis
        using Suc.IH j by (metis less_Suc_eq less_imp_le_nat)
    next
      case 2
      then show ?thesis using True by blast
    next
      case 3
      then show ?thesis using True by blast
    qed
  qed
qed

text \<open>
  C1, amended. On any tick, let the loop reach a node of the previous list of age at most
  20. The step of the loop runs the branching block and then the growth block on it. The
  branching block appends a child exactly when the distortion of the node before the
  update exceeds 2.5, the energy sampled at its position exceeds 0.3, its age before the
  update exceeds 5, and fewer than 3 nodes of the previous list, the node itself
  included, lie within 20 units of it. That child has the node as parent and is in the
  list the tick returns, at the place after the old nodes and the children appended
  before. With 3 or more nodes within 20 units the block changes nothing. Every node a
  tick appends is the child that the branching block or the growth block appended for
  some node of age at most 20.
\<close>

theorem branch_iff_guard:
  assumes "i < length prev" and "age (prev ! i) \<le> 20"
  shows
    "loop_state res rng prev (Suc i) =
       growth_block res rng prev (prev ! i)
         (calculateSpatialComplexity res (position (prev ! i)))
         (calculateEnergy res (position (prev ! i))) (dT_of res (prev ! i))
         (branch_exit res rng prev i) \<and>
     ((\<exists>child. nodesToAdd (branch_exit res rng prev i) =
                 nodesToAdd (loop_state res rng prev i) @ [child]) \<longleftrightarrow>
        distortion (prev ! i) > 2.5 \<and> calculateEnergy res (position (prev ! i)) > 0.3 \<and>
        age (prev ! i) > 5 \<and>
        length (filter (\<lambda>n. distance (position n) (position (prev ! i)) < 20) prev) < 3) \<and>
     (\<forall>child. nodesToAdd (branch_exit res rng prev i) =
                 nodesToAdd (loop_state res rng prev i) @ [child] \<longrightarrow>
        length prev + length (nodesToAdd (loop_state res rng prev i))
          < length (tick res rng prev) \<and>
        tick res rng prev ! (length prev + length (nodesToAdd (loop_state res rng prev i)))
          = child \<and>
        parent child = Some (node_id (prev ! i))) \<and>
     (3 \<le> length (filter (\<lambda>n. distance (position n) (position (prev ! i)) < 20) prev) \<longrightarrow>
        branch_exit res rng prev i = branch_entry res rng prev i) \<and>
     (\<forall>n \<in> set (drop (length prev) (tick res rng prev)).
        \<exists>j < length prev. age (prev ! j) \<le> 20 \<and>
          (nodesToAdd (branch_exit res rng prev j) =
             nodesToAdd (loop_state res rng prev j) @ [n] \<or>
           nodesToAdd (loop_state res rng prev (Suc j)) =
             nodesToAdd (branch_exit res rng prev j) @ [n]))"
proof (intro conjI)
  show "loop_state res rng prev (Suc i) =
       growth_block res rng prev (prev ! i)
         (calculateSpatialComplexity res (position (prev ! i)))
         (calculateEnergy res (position (prev ! i))) (dT_of res (prev ! i))
         (branch_exit res rng prev i)"
    using assms by (rule loop_state_step)
  show "(\<exists>child. nodesToAdd (branch_exit res rng prev i) =
                 nodesToAdd (loop_state res rng prev i) @ [child]) \<longleftrightarrow>
        distortion (prev ! i) > 2.5 \<and> calculateEnergy res (position (prev ! i)) > 0.3 \<and>
        age (prev ! i) > 5 \<and>
        length (filter (\<lambda>n. distance (position n) (position (prev ! i)) < 20) prev) < 3"
    by (simp add: branch_exit_def nodesToAdd_branch_block nodesToAdd_branch_entry
        nearbyNodes_def D_CRITICAL_def)
  show "\<forall>child. nodesToAdd (branch_exit res rng prev i) =
                 nodesToAdd (loop_state res rng prev i) @ [child] \<longrightarrow>
        length prev + length (nodesToAdd (loop_state res rng prev i))
          < length (tick res rng prev) \<and>
        tick res rng prev ! (length prev + length (nodesToAdd (loop_state res rng prev i)))
          = child \<and>
        parent child = Some (node_id (prev ! i))"
    using branch_child_returned [OF assms] by blast
  show "3 \<le> length (filter (\<lambda>n. distance (position n) (position (prev ! i)) < 20) prev) \<longrightarrow>
        branch_exit res rng prev i = branch_entry res rng prev i"
    by (simp add: branch_exit_def branch_block_idle nearbyNodes_def)
  show "\<forall>n \<in> set (drop (length prev) (tick res rng prev)).
        \<exists>j < length prev. age (prev ! j) \<le> 20 \<and>
          (nodesToAdd (branch_exit res rng prev j) =
             nodesToAdd (loop_state res rng prev j) @ [n] \<or>
           nodesToAdd (loop_state res rng prev (Suc j)) =
             nodesToAdd (branch_exit res rng prev j) @ [n])"
    using appended_by_some_node [of "length prev" prev _ res rng]
    by (simp add: tick_loop_state loop_state_def length_newNodes_process_all)
qed


text \<open>
  C1, witness: a lone node with distortion 3 and age 6 on a light branches, and its child
  is the second node of the list the tick returns; the same node with two others at its
  position does not branch.
\<close>

theorem branch_iff_guard_witness:
  "1 < length (tick [origin_light] (constant_rng 0) [origin_node 0 3 6]) \<and>
   parent (tick [origin_light] (constant_rng 0) [origin_node 0 3 6] ! 1) = Some 0 \<and>
   branch_exit [origin_light] (constant_rng 0)
      [origin_node 0 3 6, origin_node 1 0 30, origin_node 2 0 30] 0 =
   branch_entry [origin_light] (constant_rng 0)
      [origin_node 0 3 6, origin_node 1 0 30, origin_node 2 0 30] 0"
proof -
  have p: "position (origin_node k dis a) = \<lparr>vx = 0, vy = 0\<rparr>" for k dis a
    by (simp add: origin_node_def)
  have d: "distance \<lparr>vx = 0, vy = 0\<rparr> \<lparr>vx = 0, vy = 0\<rparr> = 0"
    by (simp add: distance_def)
  have f: "distortion (origin_node k dis a) = dis" "age (origin_node k dis a) = a"
    "node_id (origin_node k dis a) = k" for k dis a
    by (simp_all add: origin_node_def)
  have l: "nodesToAdd (loop_state res rng prev 0) = []" for res rng prev
    by (simp add: loop_state_def)
  have a: "1 < length (tick [origin_light] (constant_rng 0) [origin_node 0 3 6]) \<and>
    parent (tick [origin_light] (constant_rng 0) [origin_node 0 3 6] ! 1) = Some 0"
    using branch_iff_guard [of 0 "[origin_node 0 3 6]" "[origin_light]" "constant_rng 0"]
    by (auto simp add: energy_at_origin_light p d f l)
  have b: "branch_exit [origin_light] (constant_rng 0)
      [origin_node 0 3 6, origin_node 1 0 30, origin_node 2 0 30] 0 =
    branch_entry [origin_light] (constant_rng 0)
      [origin_node 0 3 6, origin_node 1 0 30, origin_node 2 0 30] 0"
    using branch_iff_guard [of 0 "[origin_node 0 3 6, origin_node 1 0 30, origin_node 2 0 30]"
        "[origin_light]" "constant_rng 0"]
    by (simp add: p d f)
  show ?thesis using a b by simp
qed

subsection \<open>Well-formed node lists\<close>

lemma process_node_child_ok:
  assumes "node \<in> set prev" and "0 \<le> coherence node"
    and "\<forall>n \<in> set (nodesToAdd st). child_ok prev n"
  shows "\<forall>n \<in> set (nodesToAdd (process_node res rng prev index node st)). child_ok prev n"
  using assms
  by (auto simp add: process_node_def Let_def nodesToAdd_growth_block nodesToAdd_branch_block
      child_ok_def)

lemma process_all_child_ok:
  assumes "set xs \<subseteq> set prev" and "\<forall>n \<in> set xs. 0 \<le> coherence n"
    and "\<forall>n \<in> set (nodesToAdd st). child_ok prev n"
  shows "\<forall>n \<in> set (nodesToAdd (process_all res rng prev index xs st)). child_ok prev n"
  using assms
proof (induction xs arbitrary: index st)
  case Nil
  then show ?case by simp
next
  case (Cons node rest)
  have "\<forall>n \<in> set (nodesToAdd (process_node res rng prev index node st)). child_ok prev n"
    using Cons.prems by (intro process_node_child_ok) simp_all
  then show ?case
    using Cons.prems Cons.IH [of "process_node res rng prev index node st" "Suc index"]
    by simp
qed

lemma coherence_updated: "0 \<le> coherence node \<Longrightarrow> 0 \<le> coherence (updated res prev node)"
  by (simp add: updated_def base_update_def)

lemma tick_cases:
  assumes "n \<in> set (tick res rng prev)"
  obtains i where "i < length prev" and "n = updated res prev (prev ! i)"
  | "n \<in> set (nodesToAdd (process_all res rng prev 0 prev
        \<lparr>newNodes = prev, nodesToAdd = [], draws = 0\<rparr>))"
proof -
  let ?st = "process_all res rng prev 0 prev \<lparr>newNodes = prev, nodesToAdd = [], draws = 0\<rparr>"
  from assms consider "n \<in> set (newNodes ?st)" | "n \<in> set (nodesToAdd ?st)"
    by (auto simp add: tick_def Let_def)
  then show ?thesis
  proof cases
    case 1
    then obtain i where i: "i < length prev" and n: "n = newNodes ?st ! i"
      by (auto simp add: in_set_conv_nth length_newNodes_process_all)
    have "n = tick res rng prev ! i"
      using i n by (simp add: tick_def Let_def nth_append length_newNodes_process_all)
    then show ?thesis using that(1) i by (simp add: tick_nth_old)
  next
    case 2
    then show ?thesis by (rule that(2))
  qed
qed

lemma well_formed_tick:
  assumes "well_formed prev"
  shows "well_formed (tick res rng prev)"
proof -
  have ids: "map node_id prev = [0 ..< length prev]"
    and ok: "\<And>n. n \<in> set prev \<Longrightarrow> 0 \<le> coherence n"
    and par: "\<And>n pid. n \<in> set prev \<Longrightarrow> parent n = Some pid \<Longrightarrow> pid < length prev"
    using assms by (auto simp add: well_formed_def)
  have idn: "node_id p < length prev" if "p \<in> set prev" for p
  proof -
    from that obtain i where "i < length prev" "p = prev ! i"
      by (auto simp add: in_set_conv_nth)
    then show ?thesis using arg_cong [OF ids, of "\<lambda>xs. xs ! i"] by simp
  qed
  have len: "length prev \<le> length (tick res rng prev)" by (rule length_tick_ge)
  have "0 \<le> coherence n \<and> (\<forall>pid. parent n = Some pid \<longrightarrow> pid < length (tick res rng prev))"
    if "n \<in> set (tick res rng prev)" for n
    using that
  proof (cases rule: tick_cases)
    case (1 i)
    then have "prev ! i \<in> set prev" by simp
    then show ?thesis
      using 1 ok [of "prev ! i"] par [of "prev ! i"] len
      by (auto simp add: coherence_updated parent_updated)
  next
    case 2
    have "\<forall>n \<in> set (nodesToAdd (process_all res rng prev 0 prev
        \<lparr>newNodes = prev, nodesToAdd = [], draws = 0\<rparr>)). child_ok prev n"
      by (rule process_all_child_ok) (simp_all add: ok)
    with 2 have "child_ok prev n" by blast
    then obtain p where p: "p \<in> set prev" "parent n = Some (node_id p)"
      and c: "0 \<le> coherence n"
      by (auto simp add: child_ok_def)
    have "node_id p < length (tick res rng prev)"
      using idn [OF p(1)] len by simp
    then show ?thesis
      using p c by simp
  qed
  then show ?thesis
    using tick_ids [OF ids] by (simp add: well_formed_def)
qed

lemma reachable_well_formed: "reachable s \<Longrightarrow> well_formed (nodes s)"
proof (induction rule: reachable.induct)
  case (init width height rs)
  show ?case by (simp add: well_formed_def seed_def)
next
  case (setPaused s b)
  then show ?case by simp
next
  case (timer s rng)
  then show ?case by (simp add: step_def well_formed_tick)
qed

lemma find_by_position:
  assumes "map node_id ns = [0 ..< length ns]" and "pid < length ns"
  shows "find (\<lambda>n. node_id n = pid) ns = Some (ns ! pid)"
proof -
  have nth: "node_id (ns ! i) = i" if "i < length ns" for i
    using arg_cong [OF assms(1), of "\<lambda>xs. xs ! i"] that by simp
  show ?thesis
    unfolding find_Some_iff
    using assms(2) nth by (intro exI [of _ pid]) auto
qed


subsection \<open>The coherence update\<close>






subsection \<open>Paths\<close>

lemma findIndex_None: "findIndex P xs = None \<longleftrightarrow> (\<forall>x \<in> set xs. \<not> P x)"
  by (induction xs) auto

lemma findIndex_Some: "findIndex P xs = Some k \<Longrightarrow> k < length xs \<and> P (xs ! k)"
  by (induction xs arbitrary: k) (auto split: if_splits)

lemma children_of_snoc:
  "children_of pid (xs @ [x]) =
     (if parent x = Some pid then children_of pid xs @ [x] else children_of pid xs)"
  by (simp add: children_of_def)

lemma segments_snoc: "segments fmt (cs @ [x]) = segments fmt cs @ lineTo fmt (position x)"
  by (simp add: segments_def)

lemma find_id: "find (\<lambda>n. node_id n = pid) ns = Some par \<Longrightarrow> node_id par = pid"
  by (auto simp add: find_Some_iff)

lemma paths_inv_skip:
  assumes "paths_inv fmt allNodes acc xs"
    and "\<forall>pid. parent x = Some pid \<longrightarrow> find (\<lambda>n. node_id n = pid) allNodes = None"
  shows "paths_inv fmt allNodes acc (xs @ [x])"
proof -
  have same: "children_of (path_id e) (xs @ [x]) = children_of (path_id e) xs"
    if "e \<in> set acc" for e
  proof -
    from assms(1) that obtain par where
      "find (\<lambda>n. node_id n = path_id e) allNodes = Some par"
      by (auto simp add: paths_inv_def)
    with assms(2) have "parent x \<noteq> Some (path_id e)" by auto
    then show ?thesis by (simp add: children_of_snoc)
  qed
  show ?thesis
    using assms by (auto simp add: paths_inv_def same)
qed

lemma paths_inv_new:
  assumes inv: "paths_inv fmt allNodes acc xs"
    and px: "parent x = Some pid"
    and f: "find (\<lambda>n. node_id n = pid) allNodes = Some par"
    and nf: "findIndex (\<lambda>p. path_id p = node_id par) acc = None"
  shows "paths_inv fmt allNodes
           (acc @ [\<lparr>path_id = node_id par,
                    d = moveTo fmt (position par) @ lineTo fmt (position x)\<rparr>])
           (xs @ [x])"
proof -
  have idp: "node_id par = pid" using f by (rule find_id)
  have fresh: "pid \<notin> path_id ` set acc"
    using nf by (auto simp add: findIndex_None idp)
  have nochild: "children_of pid xs = []"
  proof (rule ccontr)
    assume "children_of pid xs \<noteq> []"
    then obtain c where "c \<in> set xs" "parent c = Some pid"
      by (auto simp add: children_of_def filter_empty_conv)
    with inv f have "pid \<in> path_id ` set acc"
      by (auto simp add: paths_inv_def)
    with fresh show False by simp
  qed
  have same: "children_of (path_id e) (xs @ [x]) = children_of (path_id e) xs"
    if "e \<in> set acc" for e
    using that fresh px by (auto simp add: children_of_snoc)
  show ?thesis
    unfolding paths_inv_def
  proof (intro conjI ballI allI impI)
    show "distinct (map path_id
        (acc @ [\<lparr>path_id = node_id par,
                 d = moveTo fmt (position par) @ lineTo fmt (position x)\<rparr>]))"
      using inv fresh by (simp add: paths_inv_def idp)
  next
    fix e
    assume "e \<in> set (acc @ [\<lparr>path_id = node_id par,
                 d = moveTo fmt (position par) @ lineTo fmt (position x)\<rparr>])"
    then consider "e \<in> set acc"
      | "e = \<lparr>path_id = node_id par,
              d = moveTo fmt (position par) @ lineTo fmt (position x)\<rparr>"
      by auto
    then show "\<exists>par. find (\<lambda>n. node_id n = path_id e) allNodes = Some par \<and>
        children_of (path_id e) (xs @ [x]) \<noteq> [] \<and>
        d e = moveTo fmt (position par) @ segments fmt (children_of (path_id e) (xs @ [x]))"
    proof cases
      case 1
      then show ?thesis using inv by (simp add: paths_inv_def same)
    next
      case 2
      then show ?thesis
        using f px nochild by (simp add: idp children_of_snoc segments_def)
    qed
  next
    fix c q
    assume "c \<in> set (xs @ [x])" and "parent c = Some q"
      and "find (\<lambda>n. node_id n = q) allNodes \<noteq> None"
    then show "q \<in> path_id ` set (acc @ [\<lparr>path_id = node_id par,
                 d = moveTo fmt (position par) @ lineTo fmt (position x)\<rparr>])"
      using inv px idp by (auto simp add: paths_inv_def)
  qed
qed

lemma paths_inv_extend:
  assumes inv: "paths_inv fmt allNodes acc xs"
    and px: "parent x = Some pid"
    and f: "find (\<lambda>n. node_id n = pid) allNodes = Some par"
    and fi: "findIndex (\<lambda>p. path_id p = node_id par) acc = Some k"
  shows "paths_inv fmt allNodes
           (acc[k := (acc ! k)\<lparr>d := d (acc ! k) @ lineTo fmt (position x)\<rparr>])
           (xs @ [x])"
proof -
  let ?e = "(acc ! k)\<lparr>d := d (acc ! k) @ lineTo fmt (position x)\<rparr>"
  let ?acc = "acc[k := ?e]"
  have idp: "node_id par = pid" using f by (rule find_id)
  have k: "k < length acc" and idk: "path_id (acc ! k) = pid"
    using findIndex_Some [OF fi] by (simp_all add: idp)
  have dist: "distinct (map path_id acc)"
    using inv by (simp add: paths_inv_def)
  have ids: "map path_id ?acc = map path_id acc"
    by (simp add: map_update list_update_same_conv k)
  have img: "path_id ` set ?acc = path_id ` set acc"
    using arg_cong [OF ids, of set] by simp
  show ?thesis
    unfolding paths_inv_def
  proof (intro conjI ballI allI impI)
    show "distinct (map path_id ?acc)"
      using dist by (simp only: ids)
  next
    fix e
    assume "e \<in> set ?acc"
    then obtain j where j: "j < length acc" and e: "e = ?acc ! j"
      by (auto simp add: in_set_conv_nth)
    show "\<exists>par. find (\<lambda>n. node_id n = path_id e) allNodes = Some par \<and>
        children_of (path_id e) (xs @ [x]) \<noteq> [] \<and>
        d e = moveTo fmt (position par) @ segments fmt (children_of (path_id e) (xs @ [x]))"
    proof (cases "j = k")
      case True
      have "acc ! k \<in> set acc" using k by simp
      with inv idk f have "d (acc ! k) = moveTo fmt (position par) @ segments fmt (children_of pid xs)"
        by (auto simp add: paths_inv_def)
      then show ?thesis
        using True e k f px by (simp add: idk children_of_snoc segments_snoc)
    next
      case False
      then have ej: "e = acc ! j" using e by simp
      have "path_id (acc ! j) \<noteq> path_id (acc ! k)"
        using dist False j k by (simp add: distinct_conv_nth)
      then have "parent x \<noteq> Some (path_id e)"
        using px idk ej by simp
      then have "children_of (path_id e) (xs @ [x]) = children_of (path_id e) xs"
        by (simp add: children_of_snoc)
      moreover have "e \<in> set acc" using ej j by simp
      ultimately show ?thesis
        using inv by (simp add: paths_inv_def)
    qed
  next
    fix c q
    assume "c \<in> set (xs @ [x])" and "parent c = Some q"
      and "find (\<lambda>n. node_id n = q) allNodes \<noteq> None"
    then consider "c \<in> set xs" | "q = pid" using px by auto
    then show "q \<in> path_id ` set ?acc"
    proof cases
      case 1
      then show ?thesis
        using inv \<open>parent c = Some q\<close> \<open>find (\<lambda>n. node_id n = q) allNodes \<noteq> None\<close>
        unfolding img by (auto simp add: paths_inv_def)
    next
      case 2
      have "acc ! k \<in> set acc" using k by simp
      then show ?thesis
        unfolding img using idk 2 by force
    qed
  qed
qed

lemma path_step_inv:
  assumes "paths_inv fmt allNodes acc xs"
  shows "paths_inv fmt allNodes (path_step fmt allNodes acc x) (xs @ [x])"
proof (cases "parent x")
  case None
  then show ?thesis
    using paths_inv_skip [OF assms, of x] by (simp add: path_step_def)
next
  case (Some pid)
  show ?thesis
  proof (cases "find (\<lambda>n. node_id n = pid) allNodes")
    case None
    then show ?thesis
      using paths_inv_skip [OF assms, of x] Some by (simp add: path_step_def)
  next
    case par: (Some par)
    show ?thesis
    proof (cases "findIndex (\<lambda>p. path_id p = node_id par) acc")
      case None
      then show ?thesis
        using paths_inv_new [OF assms Some par] by (simp add: path_step_def Some par)
    next
      case (Some k)
      then show ?thesis
        using paths_inv_extend [OF assms \<open>parent x = Some pid\<close> par]
        by (simp add: path_step_def \<open>parent x = Some pid\<close> par)
    qed
  qed
qed

lemma foldl_path_step_inv:
  "paths_inv fmt allNodes (foldl (path_step fmt allNodes) [] xs) xs"
proof (induction xs rule: rev_induct)
  case Nil
  show ?case by (simp add: paths_inv_def)
next
  case (snoc x xs)
  then show ?case by (simp add: path_step_inv)
qed

lemma path_entry_present:
  assumes "c \<in> set ns" and "parent c = Some pid"
    and "find (\<lambda>n. node_id n = pid) ns = Some par"
  shows "distinct (map path_id (derive_paths fmt ns)) \<and>
         \<lparr>path_id = pid,
          d = moveTo fmt (position par) @
              concat (map (\<lambda>n. lineTo fmt (position n))
                        (filter (\<lambda>n. parent n = Some pid) ns))\<rparr>
           \<in> set (derive_paths fmt ns)"
proof -
  have inv: "paths_inv fmt ns (derive_paths fmt ns) ns"
    unfolding derive_paths_def by (rule foldl_path_step_inv)
  have "pid \<in> path_id ` set (derive_paths fmt ns)"
    using inv assms unfolding paths_inv_def by blast
  then obtain e where e: "e \<in> set (derive_paths fmt ns)" and ide: "path_id e = pid"
    by auto
  from inv e ide assms(3)
  have "d e = moveTo fmt (position par) @ segments fmt (children_of pid ns)"
    by (auto simp add: paths_inv_def)
  then have "e = \<lparr>path_id = pid,
          d = moveTo fmt (position par) @
              concat (map (\<lambda>n. lineTo fmt (position n))
                        (filter (\<lambda>n. parent n = Some pid) ns))\<rparr>"
    using ide by (simp add: segments_def children_of_def)
  then show ?thesis
    using inv e by (simp add: paths_inv_def)
qed

text \<open>
  C4, amended. Let a node of the list have the parent id \<open>pid\<close>. If the search for that id
  finds the node \<open>par\<close>, then path ids are distinct and the entry of \<open>pid\<close> is one move-to
  command at the position of \<open>par\<close> followed by one line-to command per child of \<open>pid\<close>, at
  the position of the child, in the order of the node list. In every state of a run the
  search succeeds: it finds the node at list position \<open>pid\<close>.
\<close>

theorem path_entry_of_parent:
  assumes "c \<in> set ns" and "parent c = Some pid"
  shows "(find (\<lambda>n. node_id n = pid) ns = Some par \<longrightarrow>
            distinct (map path_id (derive_paths fmt ns)) \<and>
            \<lparr>path_id = pid,
             d = moveTo fmt (position par) @
                 concat (map (\<lambda>n. lineTo fmt (position n))
                           (filter (\<lambda>n. parent n = Some pid) ns))\<rparr>
              \<in> set (derive_paths fmt ns)) \<and>
         (reachable s \<and> nodes s = ns \<longrightarrow>
            pid < length ns \<and> find (\<lambda>n. node_id n = pid) ns = Some (ns ! pid))"
proof -
  have "pid < length ns \<and> find (\<lambda>n. node_id n = pid) ns = Some (ns ! pid)"
    if "reachable s \<and> nodes s = ns"
  proof -
    from that have wf: "well_formed ns"
      using reachable_well_formed [of s] by auto
    then have "pid < length ns"
      using assms by (auto simp add: well_formed_def)
    then show ?thesis
      using wf by (simp add: find_by_position well_formed_def)
  qed
  then show ?thesis
    using path_entry_present [OF assms] by blast
qed

lemma tick_seed_child:
  "parent (tick [] (constant_rng 0.9) [seed 800 600] ! Suc 0) = Some 0"
  by (simp add: tick_def process_node_def branch_block_def growth_block_def seed_def Let_def
      D_CRITICAL_def activeNodeCount_def constant_rng_def split: prod.splits)

text \<open>
  C4, witness: a root with two children, and the state after the first tick of a run in
  which the seed grows.
\<close>

theorem path_entry_of_parent_witness:
  "\<lparr>path_id = 0, d = ''M0,0 L1,0 L0,1''\<rparr> \<in>
     set (derive_paths digit_fmt
       [example_node 0 0 0 None, example_node 1 1 0 (Some 0), example_node 2 0 1 (Some 0)]) \<and>
   find (\<lambda>n. node_id n = 0)
     (nodes (step (constant_rng 0.9)
        \<lparr>nodes = [seed 800 600], resources = [], time = 0, paused = False\<rparr>)) =
   Some (nodes (step (constant_rng 0.9)
        \<lparr>nodes = [seed 800 600], resources = [], time = 0, paused = False\<rparr>) ! 0)"
proof -
  let ?s = "\<lparr>nodes = [seed 800 600], resources = [], time = 0, paused = False\<rparr>"
  let ?ns = "nodes (step (constant_rng 0.9) ?s)"
  have a: "\<lparr>path_id = 0, d = ''M0,0 L1,0 L0,1''\<rparr> \<in>
     set (derive_paths digit_fmt
       [example_node 0 0 0 None, example_node 1 1 0 (Some 0), example_node 2 0 1 (Some 0)])"
    using path_entry_of_parent [of "example_node 2 0 1 (Some 0)"
      "[example_node 0 0 0 None, example_node 1 1 0 (Some 0), example_node 2 0 1 (Some 0)]"
      0 "example_node 0 0 0 None" digit_fmt]
    by (simp add: example_node_def digit_fmt_def moveTo_def lineTo_def)
  have r: "reachable (step (constant_rng 0.9) ?s)"
    by (intro reachable.timer reachable.init)
  have l: "length ?ns = 2" and p: "parent (?ns ! 1) = Some 0"
    by (simp_all add: step_def tick_seed_grows tick_seed_child)
  have m: "?ns ! 1 \<in> set ?ns"
    using l by simp
  have b: "find (\<lambda>n. node_id n = 0) ?ns = Some (?ns ! 0)"
    using path_entry_of_parent [OF m p, where s = "step (constant_rng 0.9) ?s"] r by simp
  show ?thesis using a b by simp
qed

lemma derive_paths_example:
  "derive_paths digit_fmt
     [example_node 0 0 0 None, example_node 1 1 0 (Some 0), example_node 2 0 1 (Some 0)] =
   [\<lparr>path_id = 0, d = ''M0,0 L1,0 L0,1''\<rparr>]"
  by (simp add: derive_paths_def path_step_def example_node_def digit_fmt_def moveTo_def
      lineTo_def)

text \<open>
  C4, as worded, fails for a second child: the only path of a root at (0,0) with children
  at (1,0) and (0,1) is \<open>M0,0 L1,0 L0,1\<close>, which holds the segment from the root to the
  first child but no segment from the root to the second.
\<close>

theorem spec_segment_counterexample:
  "derive_paths digit_fmt
     [example_node 0 0 0 None, example_node 1 1 0 (Some 0), example_node 2 0 1 (Some 0)] =
   [\<lparr>path_id = 0, d = ''M0,0 L1,0 L0,1''\<rparr>] \<and>
   spec_segment_present digit_fmt (example_node 0 0 0 None) (example_node 1 1 0 (Some 0))
     \<lparr>path_id = 0, d = ''M0,0 L1,0 L0,1''\<rparr> \<and>
   \<not> spec_segment_present digit_fmt (example_node 0 0 0 None) (example_node 2 0 1 (Some 0))
     \<lparr>path_id = 0, d = ''M0,0 L1,0 L0,1''\<rparr>"
proof (intro conjI)
  show "derive_paths digit_fmt
     [example_node 0 0 0 None, example_node 1 1 0 (Some 0), example_node 2 0 1 (Some 0)] =
   [\<lparr>path_id = 0, d = ''M0,0 L1,0 L0,1''\<rparr>]"
    by (rule derive_paths_example)
  show "spec_segment_present digit_fmt (example_node 0 0 0 None)
     (example_node 1 1 0 (Some 0)) \<lparr>path_id = 0, d = ''M0,0 L1,0 L0,1''\<rparr>"
    by (simp add: spec_segment_present_def example_node_def digit_fmt_def moveTo_def
        lineTo_def sublist_Cons_right)
  show "\<not> spec_segment_present digit_fmt (example_node 0 0 0 None)
     (example_node 2 0 1 (Some 0)) \<lparr>path_id = 0, d = ''M0,0 L1,0 L0,1''\<rparr>"
    by (simp add: spec_segment_present_def example_node_def digit_fmt_def moveTo_def
        lineTo_def sublist_Cons_right)
qed

subsection \<open>The light bias\<close>

lemma light_bias_step_None: "light_bias_step pos None r = None"
  by (simp add: light_bias_step_def Let_def)

lemma foldl_light_bias_None: "foldl (light_bias_step pos) None rs = None"
  by (induction rs) (simp_all add: light_bias_step_None)

lemma light_bias_step_on_light:
  "r_type r = light \<Longrightarrow> r_position r = pos \<Longrightarrow> light_bias_step pos bias r = None"
  by (simp add: light_bias_step_def Let_def js_div_def MAX_ENERGY_DISTANCE_def
      split: option.splits)

text \<open>
  C2. The light-bias loop divides by the distance with no guard. Whenever the position
  of the node is that of a light source in the list, the distance is zero, the quotient
  is not a number, the bias stays undefined to the end of the loop, and the direction
  falls back to its default.
\<close>

theorem light_bias_undefined_on_light:
  assumes "r \<in> set res" and "r_type r = light" and "r_position r = pos"
  shows "js_div (vx (r_position r) - vx pos)
           (sqrt ((vx (r_position r) - vx pos) * (vx (r_position r) - vx pos)
                  + (vy (r_position r) - vy pos) * (vy (r_position r) - vy pos))) = None \<and>
         lightBias res pos = None \<and>
         growth_direction res pos S gradient = (0, - 1)"
proof -
  from assms(1) obtain ys zs where res: "res = ys @ r # zs"
    by (auto simp add: in_set_conv_decomp)
  have "lightBias res pos = None"
    by (simp add: lightBias_def res light_bias_step_on_light [OF assms(2,3)]
        foldl_light_bias_None)
  then show ?thesis
    using assms(3) by (simp add: growth_direction_def js_div_def)
qed

text \<open>
  C2, at the initial light source of an 800 by 600 canvas, at (700, 120).
\<close>

theorem light_bias_undefined_on_light_witness:
  "lightBias [initial_light 800 600] \<lparr>vx = 700, vy = 120\<rparr> = None \<and>
   growth_direction [initial_light 800 600] \<lparr>vx = 700, vy = 120\<rparr> 0.5 \<lparr>vx = 0, vy = 0\<rparr>
     = (0, - 1)"
  using light_bias_undefined_on_light [of "initial_light 800 600" "[initial_light 800 600]"
      "\<lparr>vx = 700, vy = 120\<rparr>" "0.5" "\<lparr>vx = 0, vy = 0\<rparr>"]
  by (simp add: initial_light_def)

end
